theory Spec2Isabelle
  imports Main
begin

section \<open>debounce-lite: the debounced function factory\<close>

text \<open>
  A shallow embedding of \<^verbatim>\<open>createDebouncedFunction\<close>. The closure variables of one
  wrapper instance are the fields of a record that every operation takes and returns.
  Times and durations are integers (milliseconds, as \<^verbatim>\<open>Date.now()\<close> gives them).
  The record also carries the part of the environment that the wrapper talks to: the
  timer of the host, the promises the wrapper created (by number), the calls made to
  their \<^verbatim>\<open>resolve\<close>/\<^verbatim>\<open>reject\<close> functions, the reactions queued by
  \<^verbatim>\<open>Promise.resolve(out).then(...)\<close>, the abort signals and their listeners, and a log
  of the invocations of the target.

  What the model takes for granted: the host runs a timer exactly when the delay it
  keeps for it has passed (no lateness), and before any other event of that time; delays
  and times are integers within the range in which JavaScript numbers are exact; a
  promise that the target returns is pending when it is returned and settles later, as
  an event of its own; an options object has no methods.
\<close>

subsection \<open>JavaScript values\<close>

datatype jsval =
    Undefined
  | Null
  | Bool bool
  | Num int
  | Str string
  | Arr "jsval list"
  | Obj "(string \<times> jsval) list"
  | AbortSignal nat
  | PromiseRef nat

fun truthy :: "jsval \<Rightarrow> bool" where
  "truthy Undefined = False"
| "truthy Null = False"
| "truthy (Bool b) = b"
| "truthy (Num n) = (n \<noteq> 0)"
| "truthy (Str s) = (s \<noteq> [])"
| "truthy _ = True"

fun typeofObject :: "jsval \<Rightarrow> bool" where
  "typeofObject Null = True"
| "typeofObject (Arr _) = True"
| "typeofObject (Obj _) = True"
| "typeofObject (AbortSignal _) = True"
| "typeofObject (PromiseRef _) = True"
| "typeofObject _ = False"

fun isArray :: "jsval \<Rightarrow> bool" where
  "isArray (Arr _) = True"
| "isArray _ = False"

text \<open>\<^verbatim>\<open>key in v\<close> for the objects of the model: a plain object has the keys of its
  field list; an abort signal and a promise have no property of the names asked for.\<close>

fun hasKey :: "string \<Rightarrow> jsval \<Rightarrow> bool" where
  "hasKey k (Obj fs) = (k \<in> fst ` set fs)"
| "hasKey k _ = False"

fun getProp :: "jsval \<Rightarrow> string \<Rightarrow> jsval" where
  "getProp (Obj fs) k = (case map_of fs k of Some v \<Rightarrow> v | None \<Rightarrow> Undefined)"
| "getProp _ k = Undefined"

fun nullish :: "jsval \<Rightarrow> bool" where
  "nullish Undefined = True"
| "nullish Null = True"
| "nullish _ = False"

subsection \<open>Options, configuration and state\<close>

datatype strategy = Extend | FixedDeadline

text \<open>\<^verbatim>\<open>DebounceOptions\<close>. An absent field is \<open>None\<close>; \<open>opt_maxWait = None\<close> also stands
  for a \<^verbatim>\<open>maxWait\<close> that is not a finite number.\<close>

record options =
  opt_wait :: int
  opt_leading :: "bool option"
  opt_trailing :: "bool option"
  opt_maxWait :: "int option"
  opt_strategy :: "strategy option"
  opt_signal :: "nat option"

text \<open>The constants computed at the head of \<^verbatim>\<open>createDebouncedFunction\<close>;
  \<open>maxWait = None\<close> is \<^verbatim>\<open>Infinity\<close>.\<close>

record config =
  wait :: int
  leading :: bool
  trailing :: bool
  strategy :: strategy
  hasMaxWait :: bool
  maxWait :: "int option"
  signal :: "nat option"

datatype payload =
    Value jsval
  | TargetError jsval
  | DebounceCanceled
  | AbortError
  | TypeError

record state =
  timerId :: "int option"
  timerFiresAt :: int
  strayTimers :: nat
  firstCallTime :: int
  lastInvokeTime :: int
  pendingArgs :: "jsval list option"
  pendingThis :: jsval
  pendingResolves :: "nat list"
  pendingRejects :: "nat list"
  fixedDeadline :: int
  nextPromise :: nat
  settlements :: "(nat \<times> bool \<times> payload) list"
  jobs :: "(bool \<times> payload) list"
  awaiting :: "nat list"
  listeners :: "(nat \<times> nat) list"
  abortedSignals :: "nat list"
  calls :: "(int \<times> jsval \<times> jsval list option) list"

text \<open>
  \<^item> \<open>timerId\<close>: the handle of the timer the wrapper holds, \<open>None\<close> for \<^verbatim>\<open>null\<close>. A handle
    is named by the time at which the timer was asked to run: \<open>Some due\<close> is the handle
    that \<^verbatim>\<open>setTimeout(cb, delay)\<close> returned when it was called at time \<open>due - delay\<close>.
    The timer is live as long as the wrapper holds its handle.
  \<^item> \<open>timerFiresAt\<close>: the time at which the host runs the timer of that handle (it has a
    meaning only while a handle is held); \<open>strayTimers\<close>: how many timers have been armed
    while the handle of a live timer was still held. See \<open>setTimeout\<close> below.
  \<^item> \<open>pendingResolves\<close>, \<open>pendingRejects\<close>: the \<^verbatim>\<open>resolve\<close> and \<^verbatim>\<open>reject\<close> functions of
    the promises of the waiting calls, each named by the number of its promise.
  \<^item> \<open>settlements\<close>: every call made to a \<^verbatim>\<open>resolve\<close> (\<open>True\<close>) or \<^verbatim>\<open>reject\<close>
    (\<open>False\<close>) function of a promise the wrapper created, in order, with its payload.
  \<^item> \<open>jobs\<close>: the reactions of \<^verbatim>\<open>Promise.resolve(out).then(...)\<close> that are ready and
    run at the next microtask checkpoint; \<open>awaiting\<close>: the promises returned by the
    target that have such a reaction attached and are not settled yet.
  \<^item> \<open>listeners\<close>: the one-shot \<^verbatim>\<open>abort\<close> listeners, as pairs of a signal and the
    promise whose \<^verbatim>\<open>onAbort\<close> it is; \<open>abortedSignals\<close>: the signals that have fired.
  \<^item> \<open>calls\<close>: the invocations of the target: time, \<^verbatim>\<open>this\<close>, and the arguments as
    \<open>pendingArgs\<close> held them (\<open>None\<close> for \<^verbatim>\<open>null\<close>).
\<close>

datatype outcome = Returns jsval | Throws jsval

text \<open>The target function: it gets \<^verbatim>\<open>this\<close> and the arguments, may act on the wrapper
  while it runs (a re-entrant call), and returns a value or throws.\<close>

type_synonym target = "jsval \<Rightarrow> jsval list \<Rightarrow> state \<Rightarrow> outcome \<times> state"

definition plain :: "(jsval \<Rightarrow> jsval list \<Rightarrow> outcome) \<Rightarrow> target" where
  "plain f = (\<lambda>ctx args s. (f ctx args, s))"

definition createConfig :: "options \<Rightarrow> config" where
  "createConfig opts =
     \<lparr> wait = max 0 (opt_wait opts),
       leading = (opt_leading opts = Some True),
       trailing = (opt_trailing opts \<noteq> Some False),
       strategy = (case opt_strategy opts of None \<Rightarrow> Extend | Some st \<Rightarrow> st),
       hasMaxWait = (opt_maxWait opts \<noteq> None),
       maxWait = (case opt_maxWait opts of None \<Rightarrow> None | Some m \<Rightarrow> Some (max 0 m)),
       signal = opt_signal opts \<rparr>"

definition initialState :: state where
  "initialState =
     \<lparr> timerId = None, timerFiresAt = 0, strayTimers = 0,
       firstCallTime = 0, lastInvokeTime = 0, pendingArgs = None,
       pendingThis = Undefined, pendingResolves = [], pendingRejects = [],
       fixedDeadline = 0, nextPromise = 0, settlements = [], jobs = [], awaiting = [],
       listeners = [], abortedSignals = [], calls = [] \<rparr>"

definition createDebouncedFunction :: "options \<Rightarrow> config \<times> state" where
  "createDebouncedFunction opts = (createConfig opts, initialState)"

definition debounceExtend :: "int \<Rightarrow> options \<Rightarrow> config \<times> state" where
  "debounceExtend w opts =
     createDebouncedFunction (opts\<lparr>opt_wait := w, opt_strategy := Some Extend\<rparr>)"

definition debounceFixedDeadline :: "int \<Rightarrow> options \<Rightarrow> config \<times> state" where
  "debounceFixedDeadline w opts =
     createDebouncedFunction (opts\<lparr>opt_wait := w, opt_strategy := Some FixedDeadline\<rparr>)"

subsection \<open>The timer of the host\<close>

text \<open>
  The host keeps the delay of a timer in a signed 32-bit integer: \<^verbatim>\<open>setTimeout\<close> replaces
  a delay that is above 2147483647 (or below 1) by 1, so that a timer asked for in 25
  days or more runs after one millisecond.
\<close>

definition timeoutDelay :: "int \<Rightarrow> int" where
  "timeoutDelay delay = (if 1 \<le> delay \<and> delay \<le> 2147483647 then delay else 1)"

text \<open>
  \<^verbatim>\<open>timerId = setTimeout(() => invoke(Date.now()), delay)\<close>, called at time \<open>now\<close>. The host
  does not drop an earlier timer on its own: when the wrapper still holds the handle of
  a live timer, the assignment overwrites that handle, and the earlier timer can no
  longer be cleared and will run its callback as well. The state follows the timer whose
  handle the wrapper holds; a timer that has lost its handle is counted in \<open>strayTimers\<close>,
  which never decreases, and is not followed any further. What is said below about the
  invocations that the passage of time brings about is therefore said of the program as
  long as \<open>strayTimers\<close> has not grown. In a history of the wrapper's operations it does
  not grow (\<open>strayTimers_run\<close>), because \<open>schedule\<close> runs \<open>clearTimer\<close> before it arms a timer.
\<close>

definition setTimeout :: "int \<Rightarrow> int \<Rightarrow> state \<Rightarrow> state" where
  "setTimeout now delay s =
     s\<lparr>strayTimers := (if timerId s \<noteq> None then Suc (strayTimers s) else strayTimers s),
       timerId := Some (now + delay),
       timerFiresAt := now + timeoutDelay delay\<rparr>"

subsection \<open>The operations of the wrapper\<close>

text \<open>\<^verbatim>\<open>clearTimeout(timerId); timerId = null\<close>: the host drops the timer and the wrapper
  drops its handle. The two are one step here, a live timer being one whose handle is
  held; it is this step that keeps \<open>setTimeout\<close> from leaving a stray timer behind.\<close>

definition clearTimer :: "state \<Rightarrow> state" where
  "clearTimer s = (if timerId s \<noteq> None then s\<lparr>timerId := None\<rparr> else s)"

definition settleAll :: "bool \<Rightarrow> payload \<Rightarrow> state \<Rightarrow> state" where
  "settleAll success pl s =
     (let resolves = pendingResolves s;
          rejects = pendingRejects s;
          s1 = s\<lparr>pendingResolves := [], pendingRejects := []\<rparr>
      in s1\<lparr>settlements := settlements s1 @
               map (\<lambda>w. (w, success, pl)) (if success then resolves else rejects)\<rparr>)"

text \<open>\<^verbatim>\<open>Promise.resolve(out).then(v => settleAll(true, v), e => settleAll(false, e))\<close>:
  for a plain value the reaction is queued at once; for a promise it waits for it.\<close>

definition thenSettle :: "jsval \<Rightarrow> state \<Rightarrow> state" where
  "thenSettle out s =
     (case out of
        PromiseRef p \<Rightarrow> s\<lparr>awaiting := awaiting s @ [p]\<rparr>
      | _ \<Rightarrow> s\<lparr>jobs := jobs s @ [(True, Value out)]\<rparr>)"

definition invoke :: "target \<Rightarrow> int \<Rightarrow> state \<Rightarrow> outcome \<times> state" where
  "invoke fn now s =
     (let s1 = clearTimer s;
          args = pendingArgs s1;
          ctx = pendingThis s1;
          s2 = s1\<lparr>pendingArgs := None, pendingThis := Null, lastInvokeTime := now\<rparr>;
          s3 = s2\<lparr>calls := calls s2 @ [(now, ctx, args)]\<rparr>;
          (out, s4) = fn ctx (case args of None \<Rightarrow> [] | Some a \<Rightarrow> a) s3
      in case out of
           Returns v \<Rightarrow> (Returns v, thenSettle v s4)
         | Throws e \<Rightarrow> (Throws e, settleAll False (TargetError e) s4))"

text \<open>\<open>schedule\<close> returns the exception that a synchronous \<open>invoke\<close> let through, if any.\<close>

definition schedule :: "config \<Rightarrow> target \<Rightarrow> int \<Rightarrow> state \<Rightarrow> jsval option \<times> state" where
  "schedule cfg fn now s =
     (let s1 = clearTimer s;
          remainingWait =
            (if strategy cfg = Extend then wait cfg
             else max 0 (fixedDeadline s1 - now));
          elapsedSinceFirst = now - firstCallTime s1;
          remainingByMax =
            (if hasMaxWait cfg
             then (case maxWait cfg of
                     Some m \<Rightarrow> Some (max 0 (m - elapsedSinceFirst))
                   | None \<Rightarrow> None)
             else None);
          delay = (case remainingByMax of
                     None \<Rightarrow> remainingWait
                   | Some r \<Rightarrow> min remainingWait r)
      in if delay \<le> 0
         then (case invoke fn now s1 of
                 (Throws e, s2) \<Rightarrow> (Some e, s2)
               | (Returns v, s2) \<Rightarrow> (None, s2))
         else (None, setTimeout now delay s1))"

definition pending :: "state \<Rightarrow> bool" where
  "pending s = (pendingArgs s \<noteq> None \<or> timerId s \<noteq> None)"

text \<open>The per-call options: the last argument is taken off when it is an object, not an
  array, with a \<^verbatim>\<open>signal\<close> key. The result is \<^verbatim>\<open>callSignal\<close> and the remaining arguments.\<close>

definition popCallSignal :: "jsval list \<Rightarrow> jsval \<times> jsval list" where
  "popCallSignal allArgs =
     (if allArgs \<noteq> [] \<and> truthy (last allArgs) \<and> typeofObject (last allArgs)
         \<and> \<not> isArray (last allArgs) \<and> hasKey ''signal'' (last allArgs)
      then (getProp (last allArgs) ''signal'', butlast allArgs)
      else (Undefined, allArgs))"

text \<open>\<^verbatim>\<open>signal?.aborted\<close>, as a truth value.\<close>

definition signalAborted :: "state \<Rightarrow> jsval \<Rightarrow> bool" where
  "signalAborted s sg =
     (case sg of
        AbortSignal n \<Rightarrow> n \<in> set (abortedSignals s)
      | Obj fs \<Rightarrow> truthy (getProp (Obj fs) ''aborted'')
      | _ \<Rightarrow> False)"

text \<open>The executor of \<^verbatim>\<open>new Promise\<close> for the promise numbered \<open>p\<close>. A truthy signal that
  is no abort signal has no \<^verbatim>\<open>addEventListener\<close>: the executor throws after it has
  registered the waiter, and the promise is rejected with that error.\<close>

definition executor :: "nat \<Rightarrow> bool \<Rightarrow> jsval \<Rightarrow> state \<Rightarrow> state" where
  "executor p aborted sg s =
     (if aborted then s\<lparr>settlements := settlements s @ [(p, False, AbortError)]\<rparr>
      else
        (let s1 = s\<lparr>pendingResolves := pendingResolves s @ [p],
                     pendingRejects := pendingRejects s @ [p]\<rparr>
         in if truthy sg
            then (case sg of
                    AbortSignal n \<Rightarrow> s1\<lparr>listeners := listeners s1 @ [(n, p)]\<rparr>
                  | _ \<Rightarrow> s1\<lparr>settlements := settlements s1 @ [(p, False, TypeError)]\<rparr>)
            else s1))"

datatype ret =
    Waiter nat
  | ResolvedWith jsval
  | Threw jsval

definition debounced ::
  "config \<Rightarrow> target \<Rightarrow> int \<Rightarrow> jsval \<Rightarrow> jsval list \<Rightarrow> state \<Rightarrow> ret \<times> state" where
  "debounced cfg fn now this allArgs s =
     (let (callSignal, args) = popCallSignal allArgs;
          isFirstInCycle = (pendingArgs s = None \<and> timerId s = None);
          s1 = s\<lparr>pendingArgs := Some args, pendingThis := this\<rparr>;
          s2 = (if isFirstInCycle
                then (let s' = s1\<lparr>firstCallTime := now\<rparr>
                      in if strategy cfg = FixedDeadline
                         then s'\<lparr>fixedDeadline := firstCallTime s' + wait cfg\<rparr>
                         else s')
                else s1);
          sg = (if nullish callSignal
                then (case signal cfg of None \<Rightarrow> Undefined | Some n \<Rightarrow> AbortSignal n)
                else callSignal);
          aborted = signalAborted s2 sg;
          p = nextPromise s2;
          s3 = executor p aborted sg (s2\<lparr>nextPromise := Suc p\<rparr>);
          trail = (\<lambda>s4. if trailing cfg
                         then (case schedule cfg fn now s4 of
                                 (Some e, s5) \<Rightarrow> (Threw e, s5)
                               | (None, s5) \<Rightarrow> (Waiter p, s5))
                         else (Waiter p, s4))
      in if isFirstInCycle \<and> leading cfg
         then (case invoke fn now s3 of
                 (Throws e, s4) \<Rightarrow> (Threw e, s4)
               | (Returns result, s4) \<Rightarrow>
                   if \<not> trailing cfg then (ResolvedWith result, s4) else trail s4)
         else trail s3)"

definition cancel :: "state \<Rightarrow> state" where
  "cancel s =
     (let s1 = clearTimer s;
          s2 = s1\<lparr>pendingArgs := None, pendingThis := Null\<rparr>
      in if pendingRejects s2 \<noteq> [] then settleAll False DebounceCanceled s2 else s2)"

text \<open>\<open>flush\<close> returns \<open>None\<close> for \<^verbatim>\<open>undefined\<close> and otherwise what \<open>invoke\<close> gave.\<close>

definition flush :: "target \<Rightarrow> int \<Rightarrow> state \<Rightarrow> outcome option \<times> state" where
  "flush fn now s =
     (if pendingArgs s = None then (None, s)
      else (case invoke fn now s of (out, s1) \<Rightarrow> (Some out, s1)))"

subsection \<open>The environment: abort signals, microtasks, timers\<close>

fun indexOf :: "nat list \<Rightarrow> nat \<Rightarrow> nat option" where
  "indexOf [] w = None"
| "indexOf (x # xs) w =
     (if x = w then Some 0 else map_option Suc (indexOf xs w))"

definition splice1 :: "nat \<Rightarrow> 'a list \<Rightarrow> 'a list" where
  "splice1 idx xs = take idx xs @ drop (Suc idx) xs"

definition onAbort :: "nat \<Rightarrow> state \<Rightarrow> state" where
  "onAbort p s =
     (let s1 = (case indexOf (pendingResolves s) p of
                  Some idx \<Rightarrow>
                    s\<lparr>pendingResolves := splice1 idx (pendingResolves s),
                      pendingRejects := splice1 idx (pendingRejects s),
                      settlements := settlements s @ [(p, False, AbortError)]\<rparr>
                | None \<Rightarrow> s)
      in if \<not> pending s1 then clearTimer s1 else s1)"

text \<open>A signal fires once; its listeners run in the order of their registration.\<close>

definition abortSignal :: "nat \<Rightarrow> state \<Rightarrow> state" where
  "abortSignal n s =
     (if n \<in> set (abortedSignals s) then s
      else
        (let ps = map snd (filter (\<lambda>l. fst l = n) (listeners s));
             s1 = s\<lparr>abortedSignals := n # abortedSignals s,
                     listeners := filter (\<lambda>l. fst l \<noteq> n) (listeners s)\<rparr>
         in fold onAbort ps s1))"

text \<open>A promise returned by the target settles: each reaction attached to it is queued.\<close>

definition targetSettles :: "nat \<Rightarrow> bool \<Rightarrow> jsval \<Rightarrow> state \<Rightarrow> state" where
  "targetSettles p success v s =
     s\<lparr>awaiting := filter (\<lambda>q. q \<noteq> p) (awaiting s),
       jobs := jobs s @
         map (\<lambda>_. (success, if success then Value v else TargetError v))
             (filter (\<lambda>q. q = p) (awaiting s))\<rparr>"

text \<open>The microtask checkpoint at the end of a task runs the queued reactions in order.\<close>

definition runMicrotasks :: "state \<Rightarrow> state" where
  "runMicrotasks s =
     fold (\<lambda>(success, pl) s'. settleAll success pl s') (jobs s) (s\<lparr>jobs := []\<rparr>)"

text \<open>The timer callback \<^verbatim>\<open>() => invoke(Date.now())\<close>, run as a task of its own at time
  \<open>t\<close>; what \<open>invoke\<close> returns or throws is not consumed.\<close>

definition timerFires :: "target \<Rightarrow> int \<Rightarrow> state \<Rightarrow> state" where
  "timerFires fn t s = runMicrotasks (snd (invoke fn t (runMicrotasks s)))"

text \<open>Time passes up to \<open>t\<close>: the timer whose handle the wrapper holds, if the host runs
  it by then, fires at the time at which the host runs it. The target may arm a later
  timer while it runs, which the host may run by \<open>t\<close> too.\<close>

function advance :: "target \<Rightarrow> int \<Rightarrow> state \<Rightarrow> state" where
  "advance fn t s =
     (case timerId s of
        None \<Rightarrow> s
      | Some due \<Rightarrow>
          if timerFiresAt s \<le> t
          then (let s1 = timerFires fn (timerFiresAt s) s
                in case timerId s1 of
                     None \<Rightarrow> s1
                   | Some due1 \<Rightarrow>
                       if timerFiresAt s < timerFiresAt s1 \<and> timerFiresAt s1 \<le> t
                       then advance fn t s1 else s1)
          else s)"
  by pat_completeness auto
termination
  by (relation "measure (\<lambda>(fn, t, s). nat (t + 1 - timerFiresAt s))") auto

datatype event =
    Call jsval "jsval list"
  | Cancel
  | Flush
  | Abort nat
  | TargetSettles nat bool jsval
  | EndOfTask

fun apply_event :: "config \<Rightarrow> target \<Rightarrow> int \<Rightarrow> event \<Rightarrow> state \<Rightarrow> state" where
  "apply_event cfg fn t (Call this allArgs) s = snd (debounced cfg fn t this allArgs s)"
| "apply_event cfg fn t Cancel s = cancel s"
| "apply_event cfg fn t Flush s = snd (flush fn t s)"
| "apply_event cfg fn t (Abort n) s = abortSignal n s"
| "apply_event cfg fn t (TargetSettles p success v) s = targetSettles p success v s"
| "apply_event cfg fn t EndOfTask s = runMicrotasks s"

text \<open>A history is a list of events with the time at which each happens.\<close>

fun run :: "config \<Rightarrow> target \<Rightarrow> (int \<times> event) list \<Rightarrow> state \<Rightarrow> state" where
  "run cfg fn [] s = s"
| "run cfg fn ((t, ev) # evs) s = run cfg fn evs (apply_event cfg fn t ev (advance fn t s))"

subsection \<open>Derived forms used in the proofs\<close>

text \<open>
  The operations above are long; the proofs work with their pieces, each shown equal to
  the piece of the operation it names (\<open>invoke_plain\<close>, \<open>schedule_plain\<close>, \<open>debounced_eq\<close>
  below). \<open>invoked\<close> is the state right after the synchronous part of \<open>invoke\<close>, before the
  target runs; \<open>theArgs\<close> is what \<^verbatim>\<open>fn.apply\<close> passes on; \<open>afterOutcome\<close> is what \<open>invoke\<close> does
  with the outcome, and \<open>thrown\<close> the exception it lets through; \<open>delayOf\<close> is the delay
  \<open>schedule\<close> computes; \<open>staged\<close> is \<open>debounced\<close> up to and including the promise executor,
  \<open>trail\<close> its last step, and \<open>scheduled\<close> the state \<open>schedule\<close> leaves with a target that
  does not act on the wrapper.
\<close>

definition invoked :: "int \<Rightarrow> state \<Rightarrow> state" where
  "invoked now s = s\<lparr>timerId := None, pendingArgs := None, pendingThis := Null,
     lastInvokeTime := now, calls := calls s @ [(now, pendingThis s, pendingArgs s)]\<rparr>"

definition theArgs :: "state \<Rightarrow> jsval list" where
  "theArgs s = (case pendingArgs s of None \<Rightarrow> [] | Some a \<Rightarrow> a)"

definition afterOutcome :: "outcome \<Rightarrow> state \<Rightarrow> state" where
  "afterOutcome out s =
     (case out of Returns v \<Rightarrow> thenSettle v s | Throws e \<Rightarrow> settleAll False (TargetError e) s)"

definition thrown :: "outcome \<Rightarrow> jsval option" where
  "thrown out = (case out of Returns v \<Rightarrow> None | Throws e \<Rightarrow> Some e)"

definition delayOf :: "config \<Rightarrow> int \<Rightarrow> state \<Rightarrow> int" where
  "delayOf cfg now s =
     (let remainingWait = (if strategy cfg = Extend then wait cfg else max 0 (fixedDeadline s - now));
          remainingByMax = (if hasMaxWait cfg
             then (case maxWait cfg of Some m \<Rightarrow> Some (max 0 (m - (now - firstCallTime s))) | None \<Rightarrow> None)
             else None)
      in case remainingByMax of None \<Rightarrow> remainingWait | Some r \<Rightarrow> min remainingWait r)"

definition staged :: "config \<Rightarrow> int \<Rightarrow> jsval \<Rightarrow> jsval list \<Rightarrow> state \<Rightarrow> state" where
  "staged cfg now this allArgs s =
     (let (callSignal, args) = popCallSignal allArgs;
          isFirstInCycle = (pendingArgs s = None \<and> timerId s = None);
          s1 = s\<lparr>pendingArgs := Some args, pendingThis := this\<rparr>;
          s2 = (if isFirstInCycle
                then (let s' = s1\<lparr>firstCallTime := now\<rparr>
                      in if strategy cfg = FixedDeadline
                         then s'\<lparr>fixedDeadline := firstCallTime s' + wait cfg\<rparr>
                         else s')
                else s1);
          sg = (if nullish callSignal
                then (case signal cfg of None \<Rightarrow> Undefined | Some n \<Rightarrow> AbortSignal n)
                else callSignal);
          aborted = signalAborted s2 sg;
          p = nextPromise s2
      in executor p aborted sg (s2\<lparr>nextPromise := Suc p\<rparr>))"

definition trail :: "config \<Rightarrow> target \<Rightarrow> int \<Rightarrow> nat \<Rightarrow> state \<Rightarrow> ret \<times> state" where
  "trail cfg fn now p s4 =
     (if trailing cfg
      then (case schedule cfg fn now s4 of
              (Some e, s5) \<Rightarrow> (Threw e, s5)
            | (None, s5) \<Rightarrow> (Waiter p, s5))
      else (Waiter p, s4))"

definition scheduled :: "config \<Rightarrow> (jsval \<Rightarrow> jsval list \<Rightarrow> outcome) \<Rightarrow> int \<Rightarrow> state \<Rightarrow> state" where
  "scheduled cfg f now s =
     (if delayOf cfg now s \<le> 0
      then afterOutcome (f (pendingThis s) (theArgs s)) (invoked now s)
      else s\<lparr>timerId := Some (now + delayOf cfg now s),
             timerFiresAt := now + timeoutDelay (delayOf cfg now s)\<rparr>)"

subsection \<open>Fixtures\<close>

text \<open>An options object with only \<^verbatim>\<open>wait\<close> set, and the target of the test-suite, which
  hands its arguments back.\<close>

definition noOptions :: options where
  "noOptions = \<lparr> opt_wait = 0, opt_leading = None, opt_trailing = None,
                 opt_maxWait = None, opt_strategy = None, opt_signal = None \<rparr>"

definition echo :: "jsval \<Rightarrow> jsval list \<Rightarrow> outcome" where
  "echo ctx args = Returns (Arr args)"

text \<open>The invariant behind the \<^verbatim>\<open>maxWait\<close> ceiling: either the target has been invoked,
  the first time no later than \<open>lim\<close>, or a timer is armed that the host runs no later
  than \<open>lim\<close>.\<close>

definition withinMaxWait :: "int \<Rightarrow> state \<Rightarrow> bool" where
  "withinMaxWait lim s =
     (if calls s = []
      then (case timerId s of None \<Rightarrow> False | Some due \<Rightarrow> timerFiresAt s \<le> lim)
      else fst (hd (calls s)) \<le> lim)"

text \<open>A wrapper with the leading edge only.\<close>

definition leadingOnly50 :: config where
  "leadingOnly50 =
     createConfig (noOptions\<lparr>opt_wait := 50, opt_leading := Some True, opt_trailing := Some False\<rparr>)"

text \<open>A target that, when it is run with the argument \<^verbatim>\<open>"outer"\<close>, calls the wrapper again
  (with the argument \<^verbatim>\<open>"inner"\<close>, at the time of its own invocation) before it returns.
  The nested call is made on a wrapper whose cycle has just been closed by \<open>invoke\<close>; with
  the trailing edge only and a positive \<^verbatim>\<open>wait\<close> it arms a timer and invokes nothing
  itself.\<close>

definition reentrantTarget :: "config \<Rightarrow> target" where
  "reentrantTarget cfg ctx args s =
     (if args = [Str ''outer'']
      then (Returns (Str ''outer result''),
            snd (debounced cfg (plain echo) (lastInvokeTime s) Undefined [Str ''inner''] s))
      else (Returns (Str ''inner result''), s))"


definition inFlight :: "jsval \<Rightarrow> jsval list \<Rightarrow> outcome" where
  "inFlight ctx args = Returns (PromiseRef 0)"

subsection \<open>Waiters and their settlement\<close>

text \<open>The signal a call ends up with: its own, or the default of the options.\<close>

definition effectiveSignal :: "config \<Rightarrow> jsval list \<Rightarrow> jsval" where
  "effectiveSignal cfg allArgs =
     (if nullish (fst (popCallSignal allArgs))
      then (case signal cfg of None \<Rightarrow> Undefined | Some n \<Rightarrow> AbortSignal n)
      else fst (popCallSignal allArgs))"

fun isAbortSignal :: "jsval \<Rightarrow> bool" where
  "isAbortSignal (AbortSignal n) = True"
| "isAbortSignal _ = False"

text \<open>A call is well typed when the value under the \<^verbatim>\<open>signal\<close> key of its options object,
  if there is one, is an abort signal (or \<^verbatim>\<open>undefined\<close> or \<^verbatim>\<open>null\<close>).\<close>

fun signalTyped :: "event \<Rightarrow> bool" where
  "signalTyped (Call this allArgs) =
     (nullish (fst (popCallSignal allArgs)) \<or> isAbortSignal (fst (popCallSignal allArgs)))"
| "signalTyped _ = True"

text \<open>How often a promise has been settled, and the bookkeeping invariant: the two lists
  of waiters agree, hold no promise twice, and each promise created so far is either
  registered and unsettled or unregistered and settled once.\<close>

definition settledCount :: "nat \<Rightarrow> state \<Rightarrow> nat" where
  "settledCount p s = length (filter (\<lambda>x. fst x = p) (settlements s))"

definition waitersOk :: "state \<Rightarrow> bool" where
  "waitersOk s \<longleftrightarrow>
     pendingRejects s = pendingResolves s \<and> distinct (pendingResolves s) \<and>
     (\<forall>p. settledCount p s + (if p \<in> set (pendingResolves s) then 1 else 0)
            = (if p < nextPromise s then 1 else 0))"

text \<open>Whoever is registered is owed a settlement by something that will happen: a timer
  that is armed, a reaction that is queued, or a promise of the target that is awaited.
  Without the trailing edge no timer is armed and nothing is staged between operations.\<close>

definition settlementOwed :: "config \<Rightarrow> state \<Rightarrow> bool" where
  "settlementOwed cfg s \<longleftrightarrow>
     (pendingResolves s \<noteq> [] \<longrightarrow> timerId s \<noteq> None \<or> jobs s \<noteq> [] \<or> awaiting s \<noteq> []) \<and>
     (\<not> trailing cfg \<longrightarrow> timerId s = None \<and> pendingArgs s = None)"

text \<open>Every promise of the target that is awaited settles, with the outcome \<open>res\<close> gives.\<close>

definition settleAwaited :: "(nat \<Rightarrow> bool \<times> jsval) \<Rightarrow> state \<Rightarrow> state" where
  "settleAwaited res s = fold (\<lambda>p. targetSettles p (fst (res p)) (snd (res p))) (awaiting s) s"

text \<open>No settlement and no queued reaction carries the error of an ill-typed signal.\<close>

definition payloadsOk :: "state \<Rightarrow> bool" where
  "payloadsOk s \<longleftrightarrow>
     (\<forall>x \<in> set (settlements s). snd (snd x) \<noteq> TypeError) \<and>
     (\<forall>j \<in> set (jobs s). snd j \<noteq> TypeError)"

text \<open>A wrapper with neither edge.\<close>

definition neitherEdge50 :: config where
  "neitherEdge50 = createConfig (noOptions\<lparr>opt_wait := 50, opt_trailing := Some False\<rparr>)"

section \<open>Basic facts\<close>

declare advance.simps [simp del]

subsection \<open>The delay the host keeps\<close>

lemma timeoutDelay_small: "0 < d \<Longrightarrow> d \<le> 2147483647 \<Longrightarrow> timeoutDelay d = d"
  by (simp add: timeoutDelay_def)

lemma timeoutDelay_le: "0 < d \<Longrightarrow> timeoutDelay d \<le> d"
  by (simp add: timeoutDelay_def)

lemma timeoutDelay_pos: "0 < timeoutDelay d"
  by (simp add: timeoutDelay_def)

subsection \<open>The operations with a target that does not act on the wrapper\<close>

lemma clearTimer_eq: "clearTimer s = s\<lparr>timerId := None\<rparr>"
  by (simp add: clearTimer_def)

lemma invoke_plain:
  "invoke (plain f) now s =
     (f (pendingThis s) (theArgs s), afterOutcome (f (pendingThis s) (theArgs s)) (invoked now s))"
  by (simp add: invoke_def plain_def clearTimer_eq invoked_def theArgs_def afterOutcome_def Let_def
      split: outcome.splits)

lemma delayOf_clearTimer: "delayOf cfg now (clearTimer s) = delayOf cfg now s"
  by (cases "hasMaxWait cfg"; cases "maxWait cfg"; cases "strategy cfg = Extend")
     (simp_all add: delayOf_def clearTimer_eq)

lemma schedule_delayOf:
  "schedule cfg fn now s =
     (if delayOf cfg now (clearTimer s) \<le> 0
      then (case invoke fn now (clearTimer s) of
              (Throws e, s2) \<Rightarrow> (Some e, s2) | (Returns v, s2) \<Rightarrow> (None, s2))
      else (None, setTimeout now (delayOf cfg now (clearTimer s)) (clearTimer s)))"
  unfolding schedule_def delayOf_def Let_def ..

lemma invoked_clear: "invoked now (s\<lparr>timerId := None\<rparr>) = invoked now s"
  by (simp add: invoked_def)

lemma schedule_plain:
  "schedule cfg (plain f) now s =
     (if delayOf cfg now s \<le> 0
      then (thrown (f (pendingThis s) (theArgs s)),
            afterOutcome (f (pendingThis s) (theArgs s)) (invoked now s))
      else (None, s\<lparr>timerId := Some (now + delayOf cfg now s),
                    timerFiresAt := now + timeoutDelay (delayOf cfg now s)\<rparr>))"
proof -
  have a: "pendingThis (clearTimer s) = pendingThis s" "theArgs (clearTimer s) = theArgs s"
    "invoked now (clearTimer s) = invoked now s"
    "setTimeout now d (clearTimer s) = s\<lparr>timerId := Some (now + d), timerFiresAt := now + timeoutDelay d\<rparr>"
    for d
    by (simp_all add: clearTimer_eq theArgs_def invoked_clear setTimeout_def)
  show ?thesis
    by (cases "f (pendingThis s) (theArgs s)")
       (simp_all add: schedule_delayOf delayOf_clearTimer invoke_plain a thrown_def)
qed

lemma debounced_eq:
  "debounced cfg fn now this allArgs s =
     (if \<not> pending s \<and> leading cfg
      then (case invoke fn now (staged cfg now this allArgs s) of
              (Throws e, s4) \<Rightarrow> (Threw e, s4)
            | (Returns result, s4) \<Rightarrow>
                if \<not> trailing cfg then (ResolvedWith result, s4)
                else trail cfg fn now (nextPromise s) s4)
      else trail cfg fn now (nextPromise s) (staged cfg now this allArgs s))"
  by (cases "popCallSignal allArgs"; cases "pendingArgs s"; cases "timerId s";
      cases "strategy cfg"; cases "leading cfg"; cases "trailing cfg")
     (simp_all add: debounced_def staged_def trail_def pending_def Let_def
        split: prod.splits outcome.splits option.splits)

subsection \<open>What each step leaves untouched\<close>

lemma thenSettle_fields [simp]:
  "timerId (thenSettle v s) = timerId s"
  "timerFiresAt (thenSettle v s) = timerFiresAt s"
  "strayTimers (thenSettle v s) = strayTimers s"
  "pendingArgs (thenSettle v s) = pendingArgs s"
  "pendingThis (thenSettle v s) = pendingThis s"
  "firstCallTime (thenSettle v s) = firstCallTime s"
  "fixedDeadline (thenSettle v s) = fixedDeadline s"
  "lastInvokeTime (thenSettle v s) = lastInvokeTime s"
  "calls (thenSettle v s) = calls s"
  "pendingResolves (thenSettle v s) = pendingResolves s"
  "pendingRejects (thenSettle v s) = pendingRejects s"
  "settlements (thenSettle v s) = settlements s"
  "nextPromise (thenSettle v s) = nextPromise s"
  "listeners (thenSettle v s) = listeners s"
  "abortedSignals (thenSettle v s) = abortedSignals s"
  by (cases v; simp add: thenSettle_def)+

lemma settleAll_fields [simp]:
  "timerId (settleAll b pl s) = timerId s"
  "timerFiresAt (settleAll b pl s) = timerFiresAt s"
  "strayTimers (settleAll b pl s) = strayTimers s"
  "pendingArgs (settleAll b pl s) = pendingArgs s"
  "pendingThis (settleAll b pl s) = pendingThis s"
  "firstCallTime (settleAll b pl s) = firstCallTime s"
  "fixedDeadline (settleAll b pl s) = fixedDeadline s"
  "lastInvokeTime (settleAll b pl s) = lastInvokeTime s"
  "calls (settleAll b pl s) = calls s"
  "pendingResolves (settleAll b pl s) = []"
  "pendingRejects (settleAll b pl s) = []"
  "nextPromise (settleAll b pl s) = nextPromise s"
  "jobs (settleAll b pl s) = jobs s"
  "awaiting (settleAll b pl s) = awaiting s"
  "listeners (settleAll b pl s) = listeners s"
  "abortedSignals (settleAll b pl s) = abortedSignals s"
  by (simp_all add: settleAll_def Let_def)

lemma afterOutcome_fields [simp]:
  "timerId (afterOutcome out s) = timerId s"
  "timerFiresAt (afterOutcome out s) = timerFiresAt s"
  "strayTimers (afterOutcome out s) = strayTimers s"
  "pendingArgs (afterOutcome out s) = pendingArgs s"
  "pendingThis (afterOutcome out s) = pendingThis s"
  "firstCallTime (afterOutcome out s) = firstCallTime s"
  "fixedDeadline (afterOutcome out s) = fixedDeadline s"
  "lastInvokeTime (afterOutcome out s) = lastInvokeTime s"
  "calls (afterOutcome out s) = calls s"
  "nextPromise (afterOutcome out s) = nextPromise s"
  "listeners (afterOutcome out s) = listeners s"
  "abortedSignals (afterOutcome out s) = abortedSignals s"
  by (cases out; simp add: afterOutcome_def)+

lemma invoked_fields [simp]:
  "timerId (invoked now s) = None"
  "timerFiresAt (invoked now s) = timerFiresAt s"
  "strayTimers (invoked now s) = strayTimers s"
  "pendingArgs (invoked now s) = None"
  "pendingThis (invoked now s) = Null"
  "firstCallTime (invoked now s) = firstCallTime s"
  "fixedDeadline (invoked now s) = fixedDeadline s"
  "lastInvokeTime (invoked now s) = now"
  "calls (invoked now s) = calls s @ [(now, pendingThis s, pendingArgs s)]"
  "pendingResolves (invoked now s) = pendingResolves s"
  "pendingRejects (invoked now s) = pendingRejects s"
  "settlements (invoked now s) = settlements s"
  "nextPromise (invoked now s) = nextPromise s"
  "jobs (invoked now s) = jobs s"
  "awaiting (invoked now s) = awaiting s"
  "listeners (invoked now s) = listeners s"
  "abortedSignals (invoked now s) = abortedSignals s"
  by (simp_all add: invoked_def)

lemma executor_fields [simp]:
  "timerId (executor p a sg s) = timerId s"
  "timerFiresAt (executor p a sg s) = timerFiresAt s"
  "strayTimers (executor p a sg s) = strayTimers s"
  "pendingArgs (executor p a sg s) = pendingArgs s"
  "pendingThis (executor p a sg s) = pendingThis s"
  "firstCallTime (executor p a sg s) = firstCallTime s"
  "fixedDeadline (executor p a sg s) = fixedDeadline s"
  "lastInvokeTime (executor p a sg s) = lastInvokeTime s"
  "calls (executor p a sg s) = calls s"
  "nextPromise (executor p a sg s) = nextPromise s"
  "jobs (executor p a sg s) = jobs s"
  "awaiting (executor p a sg s) = awaiting s"
  "abortedSignals (executor p a sg s) = abortedSignals s"
  by (cases a; cases "truthy sg"; cases sg; simp add: executor_def Let_def)+

lemma staged_fields [simp]:
  "pendingArgs (staged cfg now this allArgs s) = Some (snd (popCallSignal allArgs))"
  "pendingThis (staged cfg now this allArgs s) = this"
  "timerId (staged cfg now this allArgs s) = timerId s"
  "timerFiresAt (staged cfg now this allArgs s) = timerFiresAt s"
  "strayTimers (staged cfg now this allArgs s) = strayTimers s"
  "firstCallTime (staged cfg now this allArgs s) = (if pending s then firstCallTime s else now)"
  "fixedDeadline (staged cfg now this allArgs s) =
     (if \<not> pending s \<and> strategy cfg = FixedDeadline then now + wait cfg else fixedDeadline s)"
  "lastInvokeTime (staged cfg now this allArgs s) = lastInvokeTime s"
  "calls (staged cfg now this allArgs s) = calls s"
  "nextPromise (staged cfg now this allArgs s) = Suc (nextPromise s)"
  "jobs (staged cfg now this allArgs s) = jobs s"
  "awaiting (staged cfg now this allArgs s) = awaiting s"
  "abortedSignals (staged cfg now this allArgs s) = abortedSignals s"
  by (cases "popCallSignal allArgs"; cases "pendingArgs s"; cases "timerId s"; cases "strategy cfg";
      simp add: staged_def pending_def Let_def)+

lemma theArgs_staged [simp]:
  "theArgs (staged cfg now this allArgs s) = snd (popCallSignal allArgs)"
  by (simp add: theArgs_def)

lemma snd_schedule_plain: "snd (schedule cfg (plain f) now s) = scheduled cfg f now s"
  by (simp add: schedule_plain scheduled_def)

lemma snd_trail_plain:
  "snd (trail cfg (plain f) now p s) = (if trailing cfg then scheduled cfg f now s else s)"
  by (cases "schedule cfg (plain f) now s"; cases "fst (schedule cfg (plain f) now s)")
     (simp_all add: trail_def snd_schedule_plain [symmetric])

lemma snd_debounced_plain:
  "snd (debounced cfg (plain f) now this allArgs s) =
     (if \<not> pending s \<and> leading cfg
      then (case f this (snd (popCallSignal allArgs)) of
              Throws e \<Rightarrow>
                afterOutcome (Throws e) (invoked now (staged cfg now this allArgs s))
            | Returns r \<Rightarrow>
                if trailing cfg
                then scheduled cfg f now
                       (afterOutcome (Returns r) (invoked now (staged cfg now this allArgs s)))
                else afterOutcome (Returns r) (invoked now (staged cfg now this allArgs s)))
      else if trailing cfg then scheduled cfg f now (staged cfg now this allArgs s)
           else staged cfg now this allArgs s)"
  by (cases "f this (snd (popCallSignal allArgs))")
     (simp_all add: debounced_eq invoke_plain snd_trail_plain)

lemma delayOf_cong:
  "firstCallTime s' = firstCallTime s \<Longrightarrow> fixedDeadline s' = fixedDeadline s \<Longrightarrow>
   delayOf cfg now s' = delayOf cfg now s"
  by (cases "hasMaxWait cfg"; cases "maxWait cfg"; cases "strategy cfg = Extend")
     (simp_all add: delayOf_def)

lemma scheduled_fields [simp]:
  "timerId (scheduled cfg f now s) =
     (if delayOf cfg now s \<le> 0 then None else Some (now + delayOf cfg now s))"
  "timerFiresAt (scheduled cfg f now s) =
     (if delayOf cfg now s \<le> 0 then timerFiresAt s else now + timeoutDelay (delayOf cfg now s))"
  "strayTimers (scheduled cfg f now s) = strayTimers s"
  "pendingArgs (scheduled cfg f now s) = (if delayOf cfg now s \<le> 0 then None else pendingArgs s)"
  "firstCallTime (scheduled cfg f now s) = firstCallTime s"
  "fixedDeadline (scheduled cfg f now s) = fixedDeadline s"
  "calls (scheduled cfg f now s) =
     (if delayOf cfg now s \<le> 0 then calls s @ [(now, pendingThis s, pendingArgs s)] else calls s)"
  "nextPromise (scheduled cfg f now s) = nextPromise s"
  "abortedSignals (scheduled cfg f now s) = abortedSignals s"
  by (simp_all add: scheduled_def)

subsection \<open>Microtasks and timers\<close>

lemma fold_settleAll_fields:
  "timerId (fold (\<lambda>(b, pl) s'. settleAll b pl s') js s) = timerId s"
  "timerFiresAt (fold (\<lambda>(b, pl) s'. settleAll b pl s') js s) = timerFiresAt s"
  "strayTimers (fold (\<lambda>(b, pl) s'. settleAll b pl s') js s) = strayTimers s"
  "pendingArgs (fold (\<lambda>(b, pl) s'. settleAll b pl s') js s) = pendingArgs s"
  "pendingThis (fold (\<lambda>(b, pl) s'. settleAll b pl s') js s) = pendingThis s"
  "firstCallTime (fold (\<lambda>(b, pl) s'. settleAll b pl s') js s) = firstCallTime s"
  "fixedDeadline (fold (\<lambda>(b, pl) s'. settleAll b pl s') js s) = fixedDeadline s"
  "lastInvokeTime (fold (\<lambda>(b, pl) s'. settleAll b pl s') js s) = lastInvokeTime s"
  "calls (fold (\<lambda>(b, pl) s'. settleAll b pl s') js s) = calls s"
  "nextPromise (fold (\<lambda>(b, pl) s'. settleAll b pl s') js s) = nextPromise s"
  "jobs (fold (\<lambda>(b, pl) s'. settleAll b pl s') js s) = jobs s"
  "awaiting (fold (\<lambda>(b, pl) s'. settleAll b pl s') js s) = awaiting s"
  "listeners (fold (\<lambda>(b, pl) s'. settleAll b pl s') js s) = listeners s"
  "abortedSignals (fold (\<lambda>(b, pl) s'. settleAll b pl s') js s) = abortedSignals s"
  by (induction js arbitrary: s; simp add: split_def)+

lemma runMicrotasks_fields [simp]:
  "timerId (runMicrotasks s) = timerId s"
  "timerFiresAt (runMicrotasks s) = timerFiresAt s"
  "strayTimers (runMicrotasks s) = strayTimers s"
  "pendingArgs (runMicrotasks s) = pendingArgs s"
  "pendingThis (runMicrotasks s) = pendingThis s"
  "firstCallTime (runMicrotasks s) = firstCallTime s"
  "fixedDeadline (runMicrotasks s) = fixedDeadline s"
  "lastInvokeTime (runMicrotasks s) = lastInvokeTime s"
  "calls (runMicrotasks s) = calls s"
  "nextPromise (runMicrotasks s) = nextPromise s"
  "jobs (runMicrotasks s) = []"
  "awaiting (runMicrotasks s) = awaiting s"
  "listeners (runMicrotasks s) = listeners s"
  "abortedSignals (runMicrotasks s) = abortedSignals s"
  by (simp_all add: runMicrotasks_def fold_settleAll_fields)

lemma theArgs_runMicrotasks [simp]: "theArgs (runMicrotasks s) = theArgs s"
  by (simp add: theArgs_def)

lemma timerFires_plain:
  "timerFires (plain f) t s =
     runMicrotasks (afterOutcome (f (pendingThis s) (theArgs s)) (invoked t (runMicrotasks s)))"
  by (simp add: timerFires_def invoke_plain)

lemma timerFires_plain_fields [simp]:
  "timerId (timerFires (plain f) t s) = None"
  "timerFiresAt (timerFires (plain f) t s) = timerFiresAt s"
  "strayTimers (timerFires (plain f) t s) = strayTimers s"
  "pendingArgs (timerFires (plain f) t s) = None"
  "firstCallTime (timerFires (plain f) t s) = firstCallTime s"
  "fixedDeadline (timerFires (plain f) t s) = fixedDeadline s"
  "calls (timerFires (plain f) t s) = calls s @ [(t, pendingThis s, pendingArgs s)]"
  "nextPromise (timerFires (plain f) t s) = nextPromise s"
  "jobs (timerFires (plain f) t s) = []"
  by (simp_all add: timerFires_plain)

lemma advance_plain:
  "advance (plain f) t s =
     (case timerId s of
        None \<Rightarrow> s
      | Some due \<Rightarrow> if timerFiresAt s \<le> t then timerFires (plain f) (timerFiresAt s) s else s)"
  by (subst advance.simps) (simp split: option.splits)

lemma calls_advance_plain:
  "calls (advance (plain f) t s) =
     (case timerId s of
        None \<Rightarrow> calls s
      | Some due \<Rightarrow>
          if timerFiresAt s \<le> t then calls s @ [(timerFiresAt s, pendingThis s, pendingArgs s)]
          else calls s)"
  by (simp add: advance_plain split: option.splits)



lemma debounced_plain_calls:
  "\<exists>new. calls (snd (debounced cfg (plain f) now this allArgs s)) = calls s @ new \<and>
     (\<forall>c \<in> set new. fst c = now \<and>
         (snd (snd c) = Some (snd (popCallSignal allArgs)) \<or> snd (snd c) = None))"
  by (cases "f this (snd (popCallSignal allArgs))") (simp_all add: snd_debounced_plain)

subsection \<open>The fixed deadline\<close>

lemma delayOf_fixed_no_max:
  "strategy cfg = FixedDeadline \<Longrightarrow> \<not> hasMaxWait cfg \<Longrightarrow>
   delayOf cfg now s = max 0 (fixedDeadline s - now)"
  by (simp add: delayOf_def)

lemma delayOf_fixed_le:
  "strategy cfg = FixedDeadline \<Longrightarrow> delayOf cfg now s \<le> max 0 (fixedDeadline s - now)"
  by (cases "hasMaxWait cfg"; cases "maxWait cfg") (simp_all add: delayOf_def)

lemma scheduled_more_fields [simp]:
  "pendingThis (scheduled cfg f now s) = (if delayOf cfg now s \<le> 0 then Null else pendingThis s)"
  "lastInvokeTime (scheduled cfg f now s) = (if delayOf cfg now s \<le> 0 then now else lastInvokeTime s)"
  by (simp_all add: scheduled_def)

lemma debounced_fixedDeadline_field:
  "fixedDeadline (snd (debounced cfg (plain f) now this allArgs s)) =
     (if \<not> pending s \<and> strategy cfg = FixedDeadline then now + wait cfg else fixedDeadline s)"
  by (cases "f this (snd (popCallSignal allArgs))") (simp_all add: snd_debounced_plain)

lemma debounced_firstCallTime_field:
  "firstCallTime (snd (debounced cfg (plain f) now this allArgs s)) =
     (if pending s then firstCallTime s else now)"
  by (cases "f this (snd (popCallSignal allArgs))") (simp_all add: snd_debounced_plain)

lemma debounced_timer_fixed:
  assumes "strategy cfg = FixedDeadline" "trailing cfg"
    and "timerId (snd (debounced cfg (plain f) now this allArgs s)) = Some due"
  shows "due \<le> fixedDeadline (snd (debounced cfg (plain f) now this allArgs s))"
proof -
  let ?st = "staged cfg now this allArgs s"
  have le: "delayOf cfg now x \<le> max 0 (fixedDeadline x - now)" for x
    using assms(1) by (rule delayOf_fixed_le)
  have sched: "due \<le> fixedDeadline (scheduled cfg f now x)"
    if "timerId (scheduled cfg f now x) = Some due" for x
    using le [of x] that by (simp split: if_splits)
  have "(\<exists>x. snd (debounced cfg (plain f) now this allArgs s) = scheduled cfg f now x) \<or>
        timerId (snd (debounced cfg (plain f) now this allArgs s)) = None"
    using assms(2)
    by (cases "f this (snd (popCallSignal allArgs))") (auto simp add: snd_debounced_plain)
  then show ?thesis
    using assms(3) sched by auto
qed

lemma fixed80_cfg:
  "strategy (fst (debounceFixedDeadline 80 noOptions)) = FixedDeadline"
  "wait (fst (debounceFixedDeadline 80 noOptions)) = 80"
  "\<not> leading (fst (debounceFixedDeadline 80 noOptions))"
  "trailing (fst (debounceFixedDeadline 80 noOptions))"
  "\<not> hasMaxWait (fst (debounceFixedDeadline 80 noOptions))"
  by (simp_all add: debounceFixedDeadline_def createDebouncedFunction_def createConfig_def noOptions_def)

lemma initialState_fields [simp]:
  "timerId initialState = None" "timerFiresAt initialState = 0" "strayTimers initialState = 0"
  "pendingArgs initialState = None" "calls initialState = []"
  "\<not> pending initialState" "pendingThis initialState = Undefined"
  "nextPromise initialState = 0" "settlements initialState = []"
  "pendingResolves initialState = []" "pendingRejects initialState = []"
  "jobs initialState = []" "awaiting initialState = []" "listeners initialState = []"
  "abortedSignals initialState = []"
  by (simp_all add: initialState_def pending_def)

lemma fixed80_scenario:
  fixes f c1 a1 c2 a2
  defines "cfg \<equiv> fst (debounceFixedDeadline 80 noOptions)"
  defines "s2 \<equiv> run cfg (plain f) [(0, Call c1 a1), (40, Call c2 a2)] initialState"
  shows "timerId s2 = Some 80" "calls s2 = []"
    "calls (advance (plain f) 79 s2) = []"
    "calls (advance (plain f) 80 s2) = [(80, c2, Some (snd (popCallSignal a2)))]"
proof -
  let ?s1 = "snd (debounced cfg (plain f) 0 c1 a1 initialState)"
  have c: "strategy cfg = FixedDeadline" "wait cfg = 80" "\<not> leading cfg" "trailing cfg" "\<not> hasMaxWait cfg"
    unfolding cfg_def by (rule fixed80_cfg)+
  have d: "delayOf cfg now s = max 0 (fixedDeadline s - now)" for now s
    using c by (simp add: delayOf_fixed_no_max)
  have s1: "timerId ?s1 = Some 80" "fixedDeadline ?s1 = 80" "calls ?s1 = []" "pendingArgs ?s1 \<noteq> None"
    "timerFiresAt ?s1 = 80"
    using c by (simp_all add: snd_debounced_plain d timeoutDelay_def)
  have a1: "advance (plain f) 40 ?s1 = ?s1" "advance (plain f) 0 initialState = initialState"
    using s1 by (simp_all add: advance_plain)
  have s2_eq: "s2 = snd (debounced cfg (plain f) 40 c2 a2 ?s1)"
    unfolding s2_def by (simp add: a1)
  have p1: "pending ?s1" using s1 by (simp add: pending_def)
  have s2f: "timerId s2 = Some 80" "calls s2 = []" "pendingThis s2 = c2"
    "pendingArgs s2 = Some (snd (popCallSignal a2))" "timerFiresAt s2 = 80"
    unfolding s2_eq using c s1 p1 by (simp_all add: snd_debounced_plain d timeoutDelay_def)
  show "timerId s2 = Some 80" "calls s2 = []" by (rule s2f)+
  show "calls (advance (plain f) 79 s2) = []" using s2f by (simp add: calls_advance_plain)
  show "calls (advance (plain f) 80 s2) = [(80, c2, Some (snd (popCallSignal a2)))]"
    using s2f by (simp add: calls_advance_plain)
qed

subsection \<open>The ceiling of maxWait\<close>

lemma delayOf_budget:
  assumes "hasMaxWait cfg" "maxWait cfg = Some m"
  shows "delayOf cfg now s =
           min (if strategy cfg = Extend then wait cfg else max 0 (fixedDeadline s - now))
               (max 0 (m - (now - firstCallTime s)))"
  using assms by (simp add: delayOf_def)

lemma delayOf_budget_cases:
  fixes now :: int and s :: state and cfg m
  assumes "hasMaxWait cfg" "maxWait cfg = Some m"
  defines "d \<equiv> min (if strategy cfg = Extend then wait cfg else max 0 (fixedDeadline s - now))
                     (m - (now - firstCallTime s))"
  shows "(d \<le> 0 \<longrightarrow> delayOf cfg now s \<le> 0) \<and> (0 < d \<longrightarrow> delayOf cfg now s = d)"
  unfolding d_def delayOf_budget [OF assms(1,2)] by (cases "strategy cfg = Extend") auto

lemma snd_debounced_trailing_only:
  "\<not> leading cfg \<Longrightarrow> trailing cfg \<Longrightarrow>
   snd (debounced cfg (plain f) now this allArgs s) = scheduled cfg f now (staged cfg now this allArgs s)"
  by (simp add: snd_debounced_plain)

lemma schedule_with_maxWait:
  fixes now :: int and s :: state and cfg m
  assumes "hasMaxWait cfg" "maxWait cfg = Some m"
  defines "d \<equiv> min (if strategy cfg = Extend then wait cfg else max 0 (fixedDeadline s - now))
                     (m - (now - firstCallTime s))"
  shows "(0 < d \<longrightarrow> timerId (snd (schedule cfg (plain f) now s)) = Some (now + d) \<and>
                     calls (snd (schedule cfg (plain f) now s)) = calls s) \<and>
         (d \<le> 0 \<longrightarrow> timerId (snd (schedule cfg (plain f) now s)) = None \<and>
                     calls (snd (schedule cfg (plain f) now s)) =
                       calls s @ [(now, pendingThis s, pendingArgs s)])"
  using delayOf_budget_cases [OF assms(1,2), where now = now and s = s]
  unfolding d_def snd_schedule_plain by (cases "delayOf cfg now s \<le> 0") auto

lemma hd_calls_advance_plain:
  "calls s \<noteq> [] \<Longrightarrow> calls (advance (plain f) t s) \<noteq> [] \<and>
     hd (calls (advance (plain f) t s)) = hd (calls s)"
  by (simp add: calls_advance_plain split: option.splits)

lemma hd_calls_debounced_plain:
  "calls s \<noteq> [] \<Longrightarrow> calls (snd (debounced cfg (plain f) now this allArgs s)) \<noteq> [] \<and>
     hd (calls (snd (debounced cfg (plain f) now this allArgs s))) = hd (calls s)"
  using debounced_plain_calls [of cfg f now this allArgs s] by auto

lemma withinMaxWait_call:
  fixes t :: int and s :: state and f this allArgs cfg
  assumes cfg: "hasMaxWait cfg" "maxWait cfg = Some m" "trailing cfg" "\<not> leading cfg"
    and J: "withinMaxWait (t0 + m) s" "calls s = [] \<longrightarrow> pending s \<and> firstCallTime s = t0"
  defines "s' \<equiv> snd (debounced cfg (plain f) t this allArgs (advance (plain f) t s))"
  shows "withinMaxWait (t0 + m) s' \<and>
         (calls s' = [] \<longrightarrow> pending s' \<and> firstCallTime s' = t0)"
proof (cases "calls s = []")
  case False
  then have "calls s' \<noteq> [] \<and> hd (calls s') = hd (calls s)"
    unfolding s'_def
    using hd_calls_advance_plain [of s f t]
      hd_calls_debounced_plain [of "advance (plain f) t s" cfg f t this allArgs] by simp
  then show ?thesis using J False by (simp add: withinMaxWait_def)
next
  case True
  then obtain due where due: "timerId s = Some due" "timerFiresAt s \<le> t0 + m"
    using J by (auto simp add: withinMaxWait_def split: option.splits)
  have t0: "firstCallTime s = t0" using True J by simp
  show ?thesis
  proof (cases "timerFiresAt s \<le> t")
    case fired: True
    have "calls (advance (plain f) t s) = [(timerFiresAt s, pendingThis s, pendingArgs s)]"
      using due fired True by (simp add: calls_advance_plain)
    then have "calls s' \<noteq> [] \<and> hd (calls s') = (timerFiresAt s, pendingThis s, pendingArgs s)"
      unfolding s'_def
      using hd_calls_debounced_plain [of "advance (plain f) t s" cfg f t this allArgs] by simp
    then show ?thesis using due by (simp add: withinMaxWait_def)
  next
    case notyet: False
    have adv: "advance (plain f) t s = s"
      using due notyet by (simp add: advance_plain)
    have pend: "pending s" using due by (simp add: pending_def)
    let ?st = "staged cfg t this allArgs s"
    have s': "s' = scheduled cfg f t ?st"
      unfolding s'_def adv using cfg by (simp add: snd_debounced_trailing_only)
    have fc: "firstCallTime ?st = t0" using pend t0 by simp
    have dl: "delayOf cfg t ?st \<le> max 0 (m - (t - t0))"
      using cfg fc by (simp add: delayOf_budget)
    show ?thesis
    proof (cases "delayOf cfg t ?st \<le> 0")
      case True
      then have "calls s' = [(t, this, Some (snd (popCallSignal allArgs)))]"
        using s' \<open>calls s = []\<close> by simp
      then show ?thesis using notyet due by (simp add: withinMaxWait_def)
    next
      case False
      then have "calls s' = []" "timerId s' = Some (t + delayOf cfg t ?st)"
        "pendingArgs s' \<noteq> None" "firstCallTime s' = t0"
        "timerFiresAt s' = t + timeoutDelay (delayOf cfg t ?st)"
        using s' \<open>calls s = []\<close> fc by simp_all
      moreover have "t + timeoutDelay (delayOf cfg t ?st) \<le> t0 + m"
        using dl False timeoutDelay_le [of "delayOf cfg t ?st"] by simp
      ultimately show ?thesis by (simp add: withinMaxWait_def pending_def)
    qed
  qed
qed

lemma withinMaxWait_first:
  fixes t0 :: int and s :: state and f this allArgs cfg
  assumes cfg: "hasMaxWait cfg" "maxWait cfg = Some m" "trailing cfg" "\<not> leading cfg" "0 \<le> m"
    and idle: "\<not> pending s" "calls s = []"
  defines "s' \<equiv> snd (debounced cfg (plain f) t0 this allArgs s)"
  shows "withinMaxWait (t0 + m) s' \<and>
         (calls s' = [] \<longrightarrow> pending s' \<and> firstCallTime s' = t0)"
proof -
  let ?st = "staged cfg t0 this allArgs s"
  have s': "s' = scheduled cfg f t0 ?st"
    unfolding s'_def using cfg by (simp add: snd_debounced_trailing_only)
  have fc: "firstCallTime ?st = t0" using idle by simp
  have dl: "delayOf cfg t0 ?st \<le> m"
    using cfg fc by (simp add: delayOf_budget)
  show ?thesis
  proof (cases "delayOf cfg t0 ?st \<le> 0")
    case True
    then have "calls s' = [(t0, this, Some (snd (popCallSignal allArgs)))]"
      using s' idle by simp
    then show ?thesis using cfg by (simp add: withinMaxWait_def)
  next
    case False
    then have "calls s' = []" "timerId s' = Some (t0 + delayOf cfg t0 ?st)"
      "pendingArgs s' \<noteq> None" "firstCallTime s' = t0"
      "timerFiresAt s' = t0 + timeoutDelay (delayOf cfg t0 ?st)"
      using s' idle fc by simp_all
    then show ?thesis
      using dl False timeoutDelay_le [of "delayOf cfg t0 ?st"]
      by (simp add: withinMaxWait_def pending_def)
  qed
qed

lemma withinMaxWait_run:
  assumes cfg: "hasMaxWait cfg" "maxWait cfg = Some m" "trailing cfg" "\<not> leading cfg"
    and evs: "\<forall>e \<in> set evs. \<exists>c a. snd e = Call c a"
    and J: "withinMaxWait (t0 + m) s" "calls s = [] \<longrightarrow> pending s \<and> firstCallTime s = t0"
  shows "withinMaxWait (t0 + m) (run cfg (plain f) evs s) \<and>
         (calls (run cfg (plain f) evs s) = [] \<longrightarrow>
            pending (run cfg (plain f) evs s) \<and> firstCallTime (run cfg (plain f) evs s) = t0)"
  using evs J
proof (induction evs arbitrary: s)
  case Nil
  then show ?case by simp
next
  case (Cons e evs)
  obtain t c a where e: "e = (t, Call c a)"
    using Cons.prems(1) by (cases e) auto
  let ?s' = "snd (debounced cfg (plain f) t c a (advance (plain f) t s))"
  have "withinMaxWait (t0 + m) ?s' \<and> (calls ?s' = [] \<longrightarrow> pending ?s' \<and> firstCallTime ?s' = t0)"
    using withinMaxWait_call [OF cfg Cons.prems(2,3)] .
  then show ?case
    using Cons.IH [of ?s'] Cons.prems(1) by (simp add: e)
qed

lemma withinMaxWait_advance:
  assumes "withinMaxWait lim s" "lim \<le> T"
  shows "calls (advance (plain f) T s) \<noteq> [] \<and> fst (hd (calls (advance (plain f) T s))) \<le> lim"
  using assms
  by (cases "calls s = []"; cases "timerId s")
     (auto simp add: withinMaxWait_def calls_advance_plain)

lemma maxWait_stream:
  fixes t0 T :: int and st :: "strategy option"
  defines "cfg \<equiv> createConfig \<lparr> opt_wait = 300, opt_leading = None, opt_trailing = None,
                     opt_maxWait = Some 2000, opt_strategy = st, opt_signal = None \<rparr>"
  assumes T: "t0 + 2000 \<le> T"
  shows "calls (advance (plain f) T
            (run cfg (plain f) (map (\<lambda>k. (t0 + 100 * int k, Call (c k) (a k))) [0..<Suc n])
               initialState)) \<noteq> [] \<and>
         fst (hd (calls (advance (plain f) T
            (run cfg (plain f) (map (\<lambda>k. (t0 + 100 * int k, Call (c k) (a k))) [0..<Suc n])
               initialState)))) \<le> t0 + 2000"
proof -
  have cfg: "hasMaxWait cfg" "maxWait cfg = Some 2000" "trailing cfg" "\<not> leading cfg"
    by (simp_all add: cfg_def createConfig_def)
  let ?rest = "map (\<lambda>k. (t0 + 100 * int k, Call (c k) (a k))) [Suc 0..<Suc n]"
  let ?s1 = "snd (debounced cfg (plain f) t0 (c 0) (a 0) initialState)"
  have split: "map (\<lambda>k. (t0 + 100 * int k, Call (c k) (a k))) [0..<Suc n]
                 = (t0, Call (c 0) (a 0)) # ?rest"
  proof -
    have "[0..<Suc n] = 0 # [Suc 0..<Suc n]" by (rule upt_conv_Cons) simp
    then show ?thesis by (simp del: upt_Suc)
  qed
  have run: "run cfg (plain f) (map (\<lambda>k. (t0 + 100 * int k, Call (c k) (a k))) [0..<Suc n]) initialState
               = run cfg (plain f) ?rest ?s1"
    unfolding split by (simp add: advance_plain)
  have J1: "withinMaxWait (t0 + 2000) ?s1 \<and> (calls ?s1 = [] \<longrightarrow> pending ?s1 \<and> firstCallTime ?s1 = t0)"
    using withinMaxWait_first [OF cfg, where s = initialState and f = f and ?t0.0 = t0
        and this = "c 0" and allArgs = "a 0"] by simp
  have "withinMaxWait (t0 + 2000) (run cfg (plain f) ?rest ?s1)"
    using withinMaxWait_run [OF cfg, where evs = ?rest and ?t0.0 = t0 and s = ?s1 and f = f] J1
    by auto
  then show ?thesis
    unfolding run using T by (rule withinMaxWait_advance)
qed


lemma debounced_with_maxWait:
  fixes now :: int and s :: state and cfg m f this allArgs
  assumes "hasMaxWait cfg" "maxWait cfg = Some m" "trailing cfg" "\<not> leading cfg"
  defines "s' \<equiv> snd (debounced cfg (plain f) now this allArgs s)"
  defines "d \<equiv> min (if strategy cfg = Extend then wait cfg else max 0 (fixedDeadline s' - now))
                     (m - (now - firstCallTime s'))"
  shows "(0 < d \<longrightarrow> timerId s' = Some (now + d) \<and> calls s' = calls s) \<and>
         (d \<le> 0 \<longrightarrow> timerId s' = None \<and>
                     calls s' = calls s @ [(now, this, Some (snd (popCallSignal allArgs)))])"
proof -
  let ?st = "staged cfg now this allArgs s"
  have s': "s' = scheduled cfg f now ?st"
    unfolding s'_def using assms(3,4) by (simp add: snd_debounced_trailing_only)
  have d: "d = min (if strategy cfg = Extend then wait cfg else max 0 (fixedDeadline ?st - now))
                   (m - (now - firstCallTime ?st))"
    unfolding d_def s' by simp
  show ?thesis
    using delayOf_budget_cases [OF assms(1,2), where now = now and s = ?st]
    unfolding d s' by (cases "delayOf cfg now ?st \<le> 0") auto
qed

subsection \<open>Bursts under the extend strategy\<close>

lemma delayOf_extend_no_max:
  "strategy cfg = Extend \<Longrightarrow> \<not> hasMaxWait cfg \<Longrightarrow> delayOf cfg now s = wait cfg"
  by (simp add: delayOf_def)

lemma extend_burst_armed:
  fixes T :: int
  assumes cfg: "strategy cfg = Extend" "trailing cfg" "\<not> leading cfg" "\<not> hasMaxWait cfg"
      "0 < wait cfg" "wait cfg \<le> 2147483647"
    and armed: "timerId s = Some (t + wait cfg)" "timerFiresAt s = t + wait cfg"
      "pendingArgs s = Some (snd (popCallSignal a))" "pendingThis s = c"
    and burst: "successively (\<lambda>x y. fst x \<le> fst y \<and> fst y - fst x < wait cfg) ((t, c, a) # rest)"
    and T: "fst (last ((t, c, a) # rest)) + wait cfg \<le> T"
  shows "calls (advance (plain f) T (run cfg (plain f) (map (\<lambda>(t, c, a). (t, Call c a)) rest) s))
           = calls s @ [(fst (last ((t, c, a) # rest)) + wait cfg,
                        fst (snd (last ((t, c, a) # rest))),
                        Some (snd (popCallSignal (snd (snd (last ((t, c, a) # rest)))))))] \<and>
         timerId (advance (plain f) T (run cfg (plain f) (map (\<lambda>(t, c, a). (t, Call c a)) rest) s))
           = None \<and>
         strayTimers (advance (plain f) T (run cfg (plain f) (map (\<lambda>(t, c, a). (t, Call c a)) rest) s))
           = strayTimers s"
  using armed burst T
proof (induction rest arbitrary: s t c a)
  case Nil
  then show ?case by (simp add: calls_advance_plain advance_plain)
next
  case (Cons x rest)
  obtain t' c' a' where x: "x = (t', c', a')" by (cases x) auto
  have gap: "t \<le> t'" "t' - t < wait cfg"
    and rest: "successively (\<lambda>x y. fst x \<le> fst y \<and> fst y - fst x < wait cfg) ((t', c', a') # rest)"
    using Cons.prems(5) by (simp_all add: x)
  have adv: "advance (plain f) t' s = s"
    using Cons.prems(1,2) gap by (simp add: advance_plain)
  have pend: "pending s" using Cons.prems(1) by (simp add: pending_def)
  let ?s' = "snd (debounced cfg (plain f) t' c' a' s)"
  have s': "?s' = scheduled cfg f t' (staged cfg t' c' a' s)"
    using cfg by (simp add: snd_debounced_trailing_only)
  have d: "delayOf cfg t' (staged cfg t' c' a' s) = wait cfg"
    using cfg by (simp add: delayOf_extend_no_max)
  have f: "timerId ?s' = Some (t' + wait cfg)" "timerFiresAt ?s' = t' + wait cfg"
    "pendingArgs ?s' = Some (snd (popCallSignal a'))"
    "pendingThis ?s' = c'" "calls ?s' = calls s" "strayTimers ?s' = strayTimers s"
    unfolding s' using cfg(5,6) by (simp_all add: d timeoutDelay_small)
  have "calls (advance (plain f) T (run cfg (plain f) (map (\<lambda>(t, c, a). (t, Call c a)) rest) ?s'))
         = calls ?s' @ [(fst (last ((t', c', a') # rest)) + wait cfg,
                      fst (snd (last ((t', c', a') # rest))),
                      Some (snd (popCallSignal (snd (snd (last ((t', c', a') # rest)))))))] \<and>
        timerId (advance (plain f) T (run cfg (plain f) (map (\<lambda>(t, c, a). (t, Call c a)) rest) ?s'))
         = None \<and>
        strayTimers (advance (plain f) T (run cfg (plain f) (map (\<lambda>(t, c, a). (t, Call c a)) rest) ?s'))
         = strayTimers ?s'"
    using Cons.prems(6) by (intro Cons.IH f(1,2,3,4) rest) (simp add: x)
  then show ?case
    by (simp add: x adv f(5,6))
qed

lemma extend50_cfg:
  "strategy (fst (debounceExtend 50 noOptions)) = Extend"
  "wait (fst (debounceExtend 50 noOptions)) = 50"
  "\<not> leading (fst (debounceExtend 50 noOptions))"
  "trailing (fst (debounceExtend 50 noOptions))"
  "\<not> hasMaxWait (fst (debounceExtend 50 noOptions))"
  by (simp_all add: debounceExtend_def createDebouncedFunction_def createConfig_def noOptions_def)

subsection \<open>Cancelling and flushing\<close>

lemma advance_no_timer: "timerId s = None \<Longrightarrow> advance fn T s = s"
  by (subst advance.simps) simp

lemma cancel_eq:
  "cancel s =
     (if pendingRejects s \<noteq> []
      then settleAll False DebounceCanceled (s\<lparr>timerId := None, pendingArgs := None, pendingThis := Null\<rparr>)
      else s\<lparr>timerId := None, pendingArgs := None, pendingThis := Null\<rparr>)"
  by (simp add: cancel_def clearTimer_eq Let_def)

lemma cancel_fields [simp]:
  "timerId (cancel s) = None"
  "timerFiresAt (cancel s) = timerFiresAt s"
  "strayTimers (cancel s) = strayTimers s"
  "pendingArgs (cancel s) = None"
  "pendingThis (cancel s) = Null"
  "pendingResolves (cancel s) = (if pendingRejects s \<noteq> [] then [] else pendingResolves s)"
  "pendingRejects (cancel s) = []"
  "calls (cancel s) = calls s"
  "firstCallTime (cancel s) = firstCallTime s"
  "fixedDeadline (cancel s) = fixedDeadline s"
  "nextPromise (cancel s) = nextPromise s"
  "jobs (cancel s) = jobs s"
  "awaiting (cancel s) = awaiting s"
  "listeners (cancel s) = listeners s"
  "abortedSignals (cancel s) = abortedSignals s"
  by (simp_all add: cancel_eq)

lemma settlements_cancel:
  "settlements (cancel s) = settlements s @ map (\<lambda>w. (w, False, DebounceCanceled)) (pendingRejects s)"
  by (simp add: cancel_eq settleAll_def Let_def)

lemma cancel_idle:
  "\<not> pending s \<Longrightarrow> pendingRejects s = [] \<Longrightarrow> cancel s = s\<lparr>pendingThis := Null\<rparr>"
  by (simp add: cancel_eq pending_def)

lemma runMicrotasks_single:
  "jobs s = [(b, pl)] \<Longrightarrow> runMicrotasks s = settleAll b pl (s\<lparr>jobs := []\<rparr>)"
  by (simp add: runMicrotasks_def)



subsection \<open>The bookkeeping of waiters\<close>

lemma signalAborted_cong:
  "abortedSignals s' = abortedSignals s \<Longrightarrow> signalAborted s' sg = signalAborted s sg"
  by (cases sg) (simp_all add: signalAborted_def)

lemma staged_as_executor:
  "\<exists>s2. staged cfg now this allArgs s =
          executor (nextPromise s) (signalAborted s (effectiveSignal cfg allArgs))
            (effectiveSignal cfg allArgs) s2 \<and>
        pendingResolves s2 = pendingResolves s \<and> pendingRejects s2 = pendingRejects s \<and>
        settlements s2 = settlements s \<and> listeners s2 = listeners s"
proof -
  obtain cs args where pop: "popCallSignal allArgs = (cs, args)" by (cases "popCallSignal allArgs")
  define s2 where "s2 = (if pendingArgs s = None \<and> timerId s = None
                then (let s' = s\<lparr>pendingArgs := Some args, pendingThis := this, firstCallTime := now\<rparr>
                      in if strategy cfg = FixedDeadline
                         then s'\<lparr>fixedDeadline := firstCallTime s' + wait cfg\<rparr>
                         else s')
                else s\<lparr>pendingArgs := Some args, pendingThis := this\<rparr>)"
  have f: "pendingResolves s2 = pendingResolves s" "pendingRejects s2 = pendingRejects s"
    "settlements s2 = settlements s" "listeners s2 = listeners s" "nextPromise s2 = nextPromise s"
    "abortedSignals s2 = abortedSignals s"
    by (simp_all add: s2_def Let_def)
  have "staged cfg now this allArgs s =
          executor (nextPromise s2) (signalAborted s2 (effectiveSignal cfg allArgs))
            (effectiveSignal cfg allArgs) (s2\<lparr>nextPromise := Suc (nextPromise s2)\<rparr>)"
    by (simp add: staged_def pop s2_def effectiveSignal_def Let_def)
  then have "staged cfg now this allArgs s =
          executor (nextPromise s) (signalAborted s (effectiveSignal cfg allArgs))
            (effectiveSignal cfg allArgs) (s2\<lparr>nextPromise := Suc (nextPromise s2)\<rparr>)"
    using f signalAborted_cong [of s2 s] by simp
  then show ?thesis using f by (intro exI [of _ "s2\<lparr>nextPromise := Suc (nextPromise s2)\<rparr>"]) simp
qed

lemma executor_waiters:
  "pendingResolves (executor p a sg s) = (if a then pendingResolves s else pendingResolves s @ [p])"
  "pendingRejects (executor p a sg s) = (if a then pendingRejects s else pendingRejects s @ [p])"
  "settlements (executor p a sg s) =
     (if a then settlements s @ [(p, False, AbortError)]
      else if truthy sg \<and> \<not> isAbortSignal sg then settlements s @ [(p, False, TypeError)]
      else settlements s)"
  by (cases a; cases "truthy sg"; cases sg; simp add: executor_def Let_def)+

lemma staged_waiters:
  "pendingResolves (staged cfg now this allArgs s) =
     (if signalAborted s (effectiveSignal cfg allArgs) then pendingResolves s
      else pendingResolves s @ [nextPromise s])"
  "pendingRejects (staged cfg now this allArgs s) =
     (if signalAborted s (effectiveSignal cfg allArgs) then pendingRejects s
      else pendingRejects s @ [nextPromise s])"
  "settlements (staged cfg now this allArgs s) =
     (if signalAborted s (effectiveSignal cfg allArgs)
      then settlements s @ [(nextPromise s, False, AbortError)]
      else if truthy (effectiveSignal cfg allArgs) \<and> \<not> isAbortSignal (effectiveSignal cfg allArgs)
      then settlements s @ [(nextPromise s, False, TypeError)]
      else settlements s)"
  using staged_as_executor [of cfg now this allArgs s]
  by (auto simp add: executor_waiters)

lemma effectiveSignal_typed:
  "signalTyped (Call this allArgs) \<Longrightarrow>
   \<not> (truthy (effectiveSignal cfg allArgs) \<and> \<not> isAbortSignal (effectiveSignal cfg allArgs))"
  by (cases "fst (popCallSignal allArgs)"; cases "signal cfg")
     (simp_all add: effectiveSignal_def)

lemma waitersOk_fresh:
  assumes "waitersOk s"
  shows "nextPromise s \<notin> set (pendingResolves s)" "settledCount (nextPromise s) s = 0"
proof -
  have "settledCount (nextPromise s) s + (if nextPromise s \<in> set (pendingResolves s) then 1 else 0) = 0"
    using assms unfolding waitersOk_def by (metis (full_types) less_irrefl)
  then show "nextPromise s \<notin> set (pendingResolves s)" "settledCount (nextPromise s) s = 0"
    by (simp_all split: if_splits)
qed

lemma waitersOk_staged:
  assumes "waitersOk s" "signalTyped (Call this allArgs)"
  shows "waitersOk (staged cfg now this allArgs s)"
proof -
  note fr = waitersOk_fresh [OF assms(1)]
  note ty = effectiveSignal_typed [OF assms(2), of cfg]
  have eq: "\<And>p. settledCount p s + (if p \<in> set (pendingResolves s) then 1 else 0)
            = (if p < nextPromise s then 1 else 0)"
    and rr: "pendingRejects s = pendingResolves s" and di: "distinct (pendingResolves s)"
    using assms(1) unfolding waitersOk_def by auto
  show ?thesis
  proof (cases "signalAborted s (effectiveSignal cfg allArgs)")
    case True
    show ?thesis
      unfolding waitersOk_def
      using True rr di fr eq
      by (auto simp add: staged_waiters settledCount_def less_Suc_eq)
  next
    case False
    show ?thesis
      unfolding waitersOk_def
      using False rr di fr eq ty
      by (auto simp add: staged_waiters settledCount_def less_Suc_eq)
  qed
qed

lemma waitersOk_cong:
  "pendingResolves s' = pendingResolves s \<Longrightarrow> pendingRejects s' = pendingRejects s \<Longrightarrow>
   settlements s' = settlements s \<Longrightarrow> nextPromise s' = nextPromise s \<Longrightarrow>
   waitersOk s' = waitersOk s"
  by (simp add: waitersOk_def settledCount_def)

lemma count_distinct:
  "distinct xs \<Longrightarrow> length (filter (\<lambda>w. w = p) xs) = (if p \<in> set xs then 1 else 0)"
  by (induction xs) auto

lemma count_settled_map:
  "distinct xs \<Longrightarrow>
   length (filter (\<lambda>x. fst x = p) (map (\<lambda>w. (w, b, pl)) xs)) = (if p \<in> set xs then 1 else 0)"
  by (simp add: comp_def count_distinct)

lemma count_settled_comp:
  "distinct xs \<Longrightarrow>
   length (filter ((\<lambda>x. fst x = p) \<circ> (\<lambda>w. (w, b, pl))) xs) = (if p \<in> set xs then 1 else 0)"
  by (simp add: comp_def count_distinct)

lemma settlements_settleAll:
  "settlements (settleAll b pl s) =
     settlements s @ map (\<lambda>w. (w, b, pl)) (if b then pendingResolves s else pendingRejects s)"
  by (simp add: settleAll_def Let_def)

lemma waitersOk_settleAll: "waitersOk s \<Longrightarrow> waitersOk (settleAll b pl s)"
proof -
  assume ok: "waitersOk s"
  then have rr: "pendingRejects s = pendingResolves s" and di: "distinct (pendingResolves s)"
    and eq: "\<And>q. settledCount q s + (if q \<in> set (pendingResolves s) then 1 else 0)
            = (if q < nextPromise s then 1 else 0)"
    unfolding waitersOk_def by auto
  have "settledCount q (settleAll b pl s) =
          settledCount q s + (if q \<in> set (pendingResolves s) then 1 else 0)" for q
    unfolding settledCount_def settlements_settleAll
    using di rr by (simp add: count_settled_comp)
  then show ?thesis
    unfolding waitersOk_def using eq by simp
qed

lemma waitersOk_thenSettle: "waitersOk (thenSettle v s) = waitersOk s"
  by (rule waitersOk_cong) simp_all

lemma waitersOk_invoked: "waitersOk (invoked now s) = waitersOk s"
  by (rule waitersOk_cong) simp_all

lemma waitersOk_afterOutcome: "waitersOk s \<Longrightarrow> waitersOk (afterOutcome out s)"
  by (cases out) (simp_all add: afterOutcome_def waitersOk_thenSettle waitersOk_settleAll)

lemma waitersOk_timer: "waitersOk (s\<lparr>timerId := x, timerFiresAt := y\<rparr>) = waitersOk s"
  by (rule waitersOk_cong) simp_all

lemma waitersOk_scheduled: "waitersOk s \<Longrightarrow> waitersOk (scheduled cfg f now s)"
  by (simp add: scheduled_def waitersOk_afterOutcome waitersOk_invoked waitersOk_timer)

lemma waitersOk_debounced:
  assumes "waitersOk s" "signalTyped (Call this allArgs)"
  shows "waitersOk (snd (debounced cfg (plain f) now this allArgs s))"
  using waitersOk_staged [OF assms, of cfg now]
  by (cases "f this (snd (popCallSignal allArgs))")
     (simp_all add: snd_debounced_plain waitersOk_scheduled waitersOk_afterOutcome waitersOk_invoked)

lemma waitersOk_cancel: "waitersOk s \<Longrightarrow> waitersOk (cancel s)"
proof -
  assume a: "waitersOk s"
  have "waitersOk (s\<lparr>timerId := None, pendingArgs := None, pendingThis := Null\<rparr>)"
    using a by (subst waitersOk_cong [of _ s]) simp_all
  then show ?thesis by (simp add: cancel_eq waitersOk_settleAll)
qed

lemma snd_flush_plain:
  "snd (flush (plain f) now s) =
     (if pendingArgs s = None then s
      else afterOutcome (f (pendingThis s) (theArgs s)) (invoked now s))"
  by (simp add: flush_def invoke_plain)

lemma waitersOk_flush: "waitersOk s \<Longrightarrow> waitersOk (snd (flush (plain f) now s))"
  by (simp add: snd_flush_plain waitersOk_afterOutcome waitersOk_invoked)

lemma indexOf_None: "indexOf xs p = None \<longleftrightarrow> p \<notin> set xs"
  by (induction xs) auto

lemma indexOf_splice1: "indexOf xs p = Some i \<Longrightarrow> splice1 i xs = remove1 p xs"
proof (induction xs arbitrary: i)
  case Nil
  then show ?case by simp
next
  case (Cons x xs)
  show ?case
  proof (cases "x = p")
    case True
    then show ?thesis using Cons.prems by (simp add: splice1_def)
  next
    case False
    then obtain j where j: "indexOf xs p = Some j" "i = Suc j"
      using Cons.prems by auto
    then show ?thesis using False Cons.IH [OF j(1)] by (simp add: splice1_def)
  qed
qed

lemma onAbort_eq:
  "onAbort p s =
     (if p \<in> set (pendingResolves s)
      then s\<lparr>pendingResolves := remove1 p (pendingResolves s),
             pendingRejects := splice1 (the (indexOf (pendingResolves s) p)) (pendingRejects s),
             settlements := settlements s @ [(p, False, AbortError)]\<rparr>
      else s)"
proof (cases "indexOf (pendingResolves s) p")
  case None
  then have "p \<notin> set (pendingResolves s)" by (simp add: indexOf_None)
  then show ?thesis using None by (simp add: onAbort_def clearTimer_def pending_def Let_def)
next
  case (Some i)
  then have "p \<in> set (pendingResolves s)"
    using indexOf_None [of "pendingResolves s" p] by auto
  then show ?thesis
    using Some indexOf_splice1 [OF Some]
    by (simp add: onAbort_def clearTimer_def pending_def Let_def)
qed

lemma onAbort_fields [simp]:
  "timerId (onAbort p s) = timerId s"
  "timerFiresAt (onAbort p s) = timerFiresAt s"
  "strayTimers (onAbort p s) = strayTimers s"
  "pendingArgs (onAbort p s) = pendingArgs s"
  "pendingThis (onAbort p s) = pendingThis s"
  "firstCallTime (onAbort p s) = firstCallTime s"
  "fixedDeadline (onAbort p s) = fixedDeadline s"
  "calls (onAbort p s) = calls s"
  "nextPromise (onAbort p s) = nextPromise s"
  "jobs (onAbort p s) = jobs s"
  "awaiting (onAbort p s) = awaiting s"
  "abortedSignals (onAbort p s) = abortedSignals s"
  "listeners (onAbort p s) = listeners s"
  by (simp_all add: onAbort_eq)

lemma waitersOk_onAbort: "waitersOk s \<Longrightarrow> waitersOk (onAbort p s)"
proof (cases "p \<in> set (pendingResolves s)")
  case False
  then show "waitersOk s \<Longrightarrow> ?thesis" by (simp add: onAbort_eq)
next
  case True
  assume ok: "waitersOk s"
  then have rr: "pendingRejects s = pendingResolves s" and di: "distinct (pendingResolves s)"
    and eq: "\<And>q. settledCount q s + (if q \<in> set (pendingResolves s) then 1 else 0)
            = (if q < nextPromise s then 1 else 0)"
    unfolding waitersOk_def by auto
  obtain i where i: "indexOf (pendingResolves s) p = Some i"
    using True indexOf_None [of "pendingResolves s" p] by (cases "indexOf (pendingResolves s) p") auto
  have rej: "splice1 (the (indexOf (pendingResolves s) p)) (pendingRejects s) = remove1 p (pendingResolves s)"
    using i indexOf_splice1 [OF i] rr by simp
  have cnt: "settledCount q (onAbort p s) = settledCount q s + (if q = p then 1 else 0)" for q
    using True by (simp add: onAbort_eq settledCount_def)
  have mem: "q \<in> set (pendingResolves (onAbort p s)) \<longleftrightarrow> q \<in> set (pendingResolves s) \<and> q \<noteq> p" for q
    using True di by (auto simp add: onAbort_eq)
  have "pendingRejects (onAbort p s) = pendingResolves (onAbort p s)"
    using True rej by (simp add: onAbort_eq)
  moreover have "distinct (pendingResolves (onAbort p s))"
    using True di by (simp add: onAbort_eq)
  moreover have "settledCount q (onAbort p s) + (if q \<in> set (pendingResolves (onAbort p s)) then 1 else 0)
            = (if q < nextPromise (onAbort p s) then 1 else 0)" for q
    using eq [of q] eq [of p] True by (auto simp add: cnt mem split: if_splits)
  ultimately show ?thesis
    unfolding waitersOk_def by blast
qed

lemma waitersOk_fold_onAbort: "waitersOk s \<Longrightarrow> waitersOk (fold onAbort ps s)"
  by (induction ps arbitrary: s) (simp_all add: waitersOk_onAbort)

lemma waitersOk_abortSignal: "waitersOk s \<Longrightarrow> waitersOk (abortSignal n s)"
proof -
  assume a: "waitersOk s"
  have "waitersOk (s\<lparr>abortedSignals := n # abortedSignals s,
                     listeners := filter (\<lambda>l. fst l \<noteq> n) (listeners s)\<rparr>)"
    using a by (subst waitersOk_cong [of _ s]) simp_all
  then show ?thesis
    using a by (simp add: abortSignal_def Let_def waitersOk_fold_onAbort)
qed

lemma waitersOk_targetSettles: "waitersOk (targetSettles p b v s) = waitersOk s"
  by (rule waitersOk_cong) (simp_all add: targetSettles_def)

lemma waitersOk_fold_settleAll:
  "waitersOk s \<Longrightarrow> waitersOk (fold (\<lambda>(b, pl) s'. settleAll b pl s') js s)"
  by (induction js arbitrary: s) (auto simp add: waitersOk_settleAll)

lemma waitersOk_runMicrotasks: "waitersOk s \<Longrightarrow> waitersOk (runMicrotasks s)"
proof -
  assume a: "waitersOk s"
  have "waitersOk (s\<lparr>jobs := []\<rparr>)"
    using a by (subst waitersOk_cong [of _ s]) simp_all
  then show ?thesis by (simp add: runMicrotasks_def waitersOk_fold_settleAll)
qed

lemma waitersOk_timerFires: "waitersOk s \<Longrightarrow> waitersOk (timerFires (plain f) t s)"
  by (simp add: timerFires_plain waitersOk_runMicrotasks waitersOk_afterOutcome waitersOk_invoked)

lemma waitersOk_advance: "waitersOk s \<Longrightarrow> waitersOk (advance (plain f) t s)"
  by (simp add: advance_plain waitersOk_timerFires split: option.splits)

lemma waitersOk_apply_event:
  "waitersOk s \<Longrightarrow> signalTyped ev \<Longrightarrow> waitersOk (apply_event cfg (plain f) t ev s)"
  by (cases ev)
     (simp_all add: waitersOk_debounced waitersOk_cancel waitersOk_flush waitersOk_abortSignal
        waitersOk_targetSettles waitersOk_runMicrotasks)

lemma waitersOk_run:
  "waitersOk s \<Longrightarrow> \<forall>e \<in> set evs. signalTyped (snd e) \<Longrightarrow> waitersOk (run cfg (plain f) evs s)"
proof (induction evs arbitrary: s)
  case Nil
  then show ?case by simp
next
  case (Cons e evs)
  obtain t ev where e: "e = (t, ev)" by (cases e)
  have "waitersOk (apply_event cfg (plain f) t ev (advance (plain f) t s))"
    using Cons.prems by (simp add: e waitersOk_apply_event waitersOk_advance)
  then show ?case using Cons.IH Cons.prems(2) by (simp add: e)
qed

lemma waitersOk_initialState: "waitersOk initialState"
  by (simp add: waitersOk_def settledCount_def)

subsection \<open>Every registered waiter is owed a settlement\<close>

lemma afterOutcome_owed:
  "pendingResolves (afterOutcome out s) \<noteq> [] \<Longrightarrow>
   jobs (afterOutcome out s) \<noteq> [] \<or> awaiting (afterOutcome out s) \<noteq> []"
proof (cases out)
  case (Returns v)
  then show "pendingResolves (afterOutcome out s) \<noteq> [] \<Longrightarrow> ?thesis"
    by (cases v) (simp_all add: afterOutcome_def thenSettle_def)
next
  case (Throws e)
  then show "pendingResolves (afterOutcome out s) \<noteq> [] \<Longrightarrow> ?thesis"
    by (simp add: afterOutcome_def)
qed

lemma owed_after_invoke:
  "settlementOwed cfg (afterOutcome out (invoked now s))"
  using afterOutcome_owed [of out "invoked now s"]
  by (auto simp add: settlementOwed_def)

lemma owed_scheduled:
  "trailing cfg \<Longrightarrow> settlementOwed cfg (scheduled cfg f now s)"
proof (cases "delayOf cfg now s \<le> 0")
  case True
  then show ?thesis
    using owed_after_invoke [of cfg "f (pendingThis s) (theArgs s)" now s]
    by (simp add: scheduled_def)
next
  case False
  then show "trailing cfg \<Longrightarrow> ?thesis"
    by (simp add: scheduled_def settlementOwed_def)
qed

lemma owed_debounced:
  assumes edge: "leading cfg \<or> trailing cfg" and owed: "settlementOwed cfg s"
  shows "settlementOwed cfg (snd (debounced cfg (plain f) now this allArgs s))"
proof (cases "trailing cfg")
  case True
  then show ?thesis
    using owed_scheduled [OF True] owed_after_invoke [of cfg]
    by (cases "f this (snd (popCallSignal allArgs))") (simp_all add: snd_debounced_plain)
next
  case False
  then have "leading cfg" "\<not> pending s"
    using edge owed by (simp_all add: settlementOwed_def pending_def)
  then show ?thesis
    using False owed_after_invoke [of cfg]
    by (cases "f this (snd (popCallSignal allArgs))") (simp_all add: snd_debounced_plain)
qed

lemma owed_cancel: "waitersOk s \<Longrightarrow> settlementOwed cfg (cancel s)"
  by (simp add: settlementOwed_def waitersOk_def)

lemma owed_flush: "settlementOwed cfg s \<Longrightarrow> settlementOwed cfg (snd (flush (plain f) now s))"
  using owed_after_invoke [of cfg "f (pendingThis s) (theArgs s)" now s]
  by (simp add: snd_flush_plain)

lemma pendingResolves_onAbort:
  "pendingResolves (onAbort p s) = (if p \<in> set (pendingResolves s) then remove1 p (pendingResolves s)
                                    else pendingResolves s)"
  by (simp add: onAbort_eq)

lemma owed_onAbort: "settlementOwed cfg s \<Longrightarrow> settlementOwed cfg (onAbort p s)"
  by (cases "pendingResolves s") (auto simp add: settlementOwed_def pendingResolves_onAbort)

lemma owed_fold_onAbort: "settlementOwed cfg s \<Longrightarrow> settlementOwed cfg (fold onAbort ps s)"
  by (induction ps arbitrary: s) (simp_all add: owed_onAbort)

lemma owed_abortSignal: "settlementOwed cfg s \<Longrightarrow> settlementOwed cfg (abortSignal n s)"
proof -
  assume a: "settlementOwed cfg s"
  have "settlementOwed cfg (s\<lparr>abortedSignals := n # abortedSignals s,
                     listeners := filter (\<lambda>l. fst l \<noteq> n) (listeners s)\<rparr>)"
    using a by (simp add: settlementOwed_def)
  then show ?thesis
    using a by (simp add: abortSignal_def Let_def owed_fold_onAbort)
qed

lemma targetSettles_fields [simp]:
  "timerId (targetSettles p b v s) = timerId s"
  "timerFiresAt (targetSettles p b v s) = timerFiresAt s"
  "strayTimers (targetSettles p b v s) = strayTimers s"
  "pendingArgs (targetSettles p b v s) = pendingArgs s"
  "pendingResolves (targetSettles p b v s) = pendingResolves s"
  "pendingRejects (targetSettles p b v s) = pendingRejects s"
  "settlements (targetSettles p b v s) = settlements s"
  "nextPromise (targetSettles p b v s) = nextPromise s"
  "calls (targetSettles p b v s) = calls s"
  "awaiting (targetSettles p b v s) = filter (\<lambda>q. q \<noteq> p) (awaiting s)"
  by (simp_all add: targetSettles_def)

lemma targetSettles_lengths:
  "length (jobs (targetSettles p b v s)) + length (awaiting (targetSettles p b v s))
     = length (jobs s) + length (awaiting s)"
  using sum_length_filter_compl [of "\<lambda>q. q = p" "awaiting s"]
  by (simp add: targetSettles_def)

lemma owed_targetSettles: "settlementOwed cfg s \<Longrightarrow> settlementOwed cfg (targetSettles p b v s)"
proof -
  assume a: "settlementOwed cfg s"
  have "jobs s \<noteq> [] \<or> awaiting s \<noteq> [] \<Longrightarrow>
        jobs (targetSettles p b v s) \<noteq> [] \<or> awaiting (targetSettles p b v s) \<noteq> []"
    using targetSettles_lengths [of p b v s] by (cases "jobs s"; cases "awaiting s") auto
  then show ?thesis
    using a unfolding settlementOwed_def by auto
qed

lemma pendingResolves_fold_settleAll:
  "pendingResolves (fold (\<lambda>(b, pl) s'. settleAll b pl s') js s)
     = (if js = [] then pendingResolves s else [])"
proof (induction js arbitrary: s)
  case Nil
  then show ?case by simp
next
  case (Cons j js)
  then show ?case by (cases j) simp
qed

lemma pendingResolves_runMicrotasks:
  "pendingResolves (runMicrotasks s) = (if jobs s = [] then pendingResolves s else [])"
  by (simp add: runMicrotasks_def pendingResolves_fold_settleAll)






lemma owed_runMicrotasks: "settlementOwed cfg s \<Longrightarrow> settlementOwed cfg (runMicrotasks s)"
  by (auto simp add: settlementOwed_def pendingResolves_runMicrotasks split: if_splits)

lemma owed_timerFires: "trailing cfg \<Longrightarrow> settlementOwed cfg (timerFires (plain f) t s)"
proof -
  assume tr: "trailing cfg"
  have "settlementOwed cfg (afterOutcome (f (pendingThis s) (theArgs s)) (invoked t (runMicrotasks s)))"
    by (rule owed_after_invoke)
  then have "settlementOwed cfg (runMicrotasks
      (afterOutcome (f (pendingThis s) (theArgs s)) (invoked t (runMicrotasks s))))"
    by (rule owed_runMicrotasks)
  then show ?thesis by (simp add: timerFires_plain)
qed

lemma owed_advance: "settlementOwed cfg s \<Longrightarrow> settlementOwed cfg (advance (plain f) t s)"
proof (cases "timerId s")
  case None
  then show "settlementOwed cfg s \<Longrightarrow> ?thesis" by (simp add: advance_plain)
next
  case (Some due)
  assume a: "settlementOwed cfg s"
  then have "trailing cfg" using Some by (auto simp add: settlementOwed_def)
  then show ?thesis using a Some by (simp add: advance_plain owed_timerFires)
qed

lemma owed_apply_event:
  "leading cfg \<or> trailing cfg \<Longrightarrow> waitersOk s \<Longrightarrow> settlementOwed cfg s \<Longrightarrow>
   settlementOwed cfg (apply_event cfg (plain f) t ev s)"
  by (cases ev)
     (simp_all add: owed_debounced owed_cancel owed_flush owed_abortSignal owed_targetSettles
        owed_runMicrotasks)

lemma owed_run:
  assumes "leading cfg \<or> trailing cfg" "\<forall>e \<in> set evs. signalTyped (snd e)"
    "waitersOk s" "settlementOwed cfg s"
  shows "settlementOwed cfg (run cfg (plain f) evs s)"
  using assms(2-)
proof (induction evs arbitrary: s)
  case Nil
  then show ?case by simp
next
  case (Cons e evs)
  obtain t ev where e: "e = (t, ev)" by (cases e)
  let ?s1 = "advance (plain f) t s"
  have 1: "waitersOk ?s1" "settlementOwed cfg ?s1"
    using Cons.prems by (simp_all add: waitersOk_advance owed_advance)
  have 2: "waitersOk (apply_event cfg (plain f) t ev ?s1)"
    using 1 Cons.prems(1) by (simp add: e waitersOk_apply_event)
  have 3: "settlementOwed cfg (apply_event cfg (plain f) t ev ?s1)"
    using 1 assms(1) by (simp add: owed_apply_event)
  show ?case using Cons.IH [OF _ 2 3] Cons.prems(1) by (simp add: e)
qed

lemma owed_initialState: "settlementOwed cfg initialState"
  by (simp add: settlementOwed_def)

subsection \<open>The payloads of settlements\<close>

lemma payloadsOk_cong:
  "settlements s' = settlements s \<Longrightarrow> jobs s' = jobs s \<Longrightarrow> payloadsOk s' = payloadsOk s"
  by (simp add: payloadsOk_def)

lemma payloadsOk_settleAll:
  "payloadsOk s \<Longrightarrow> pl \<noteq> TypeError \<Longrightarrow> payloadsOk (settleAll b pl s)"
  by (auto simp add: payloadsOk_def settlements_settleAll)

lemma payloadsOk_afterOutcome: "payloadsOk s \<Longrightarrow> payloadsOk (afterOutcome out s)"
proof (cases out)
  case (Returns v)
  then show "payloadsOk s \<Longrightarrow> ?thesis"
    by (cases v) (simp_all add: afterOutcome_def thenSettle_def payloadsOk_def)
next
  case (Throws e)
  then show "payloadsOk s \<Longrightarrow> ?thesis"
    by (simp add: afterOutcome_def payloadsOk_settleAll)
qed

lemma payloadsOk_invoked: "payloadsOk (invoked now s) = payloadsOk s"
  by (rule payloadsOk_cong) simp_all

lemma payloadsOk_scheduled: "payloadsOk s \<Longrightarrow> payloadsOk (scheduled cfg f now s)"
  by (simp add: scheduled_def payloadsOk_afterOutcome payloadsOk_invoked)
     (simp add: payloadsOk_def)

lemma payloadsOk_staged:
  "payloadsOk s \<Longrightarrow> signalTyped (Call this allArgs) \<Longrightarrow> payloadsOk (staged cfg now this allArgs s)"
  using effectiveSignal_typed [of this allArgs cfg]
  by (auto simp add: payloadsOk_def staged_waiters)

lemma payloadsOk_debounced:
  assumes "payloadsOk s" "signalTyped (Call this allArgs)"
  shows "payloadsOk (snd (debounced cfg (plain f) now this allArgs s))"
  using payloadsOk_staged [OF assms, of cfg now]
  by (cases "f this (snd (popCallSignal allArgs))")
     (simp_all add: snd_debounced_plain payloadsOk_scheduled payloadsOk_afterOutcome payloadsOk_invoked)

lemma payloadsOk_cancel: "payloadsOk s \<Longrightarrow> payloadsOk (cancel s)"
  by (auto simp add: payloadsOk_def settlements_cancel)

lemma payloadsOk_flush: "payloadsOk s \<Longrightarrow> payloadsOk (snd (flush (plain f) now s))"
  by (simp add: snd_flush_plain payloadsOk_afterOutcome payloadsOk_invoked)

lemma payloadsOk_onAbort: "payloadsOk s \<Longrightarrow> payloadsOk (onAbort p s)"
  by (auto simp add: payloadsOk_def onAbort_eq)

lemma payloadsOk_fold_onAbort: "payloadsOk s \<Longrightarrow> payloadsOk (fold onAbort ps s)"
  by (induction ps arbitrary: s) (simp_all add: payloadsOk_onAbort)

lemma payloadsOk_abortSignal: "payloadsOk s \<Longrightarrow> payloadsOk (abortSignal n s)"
proof -
  assume a: "payloadsOk s"
  have "payloadsOk (s\<lparr>abortedSignals := n # abortedSignals s,
                     listeners := filter (\<lambda>l. fst l \<noteq> n) (listeners s)\<rparr>)"
    using a by (simp add: payloadsOk_def)
  then show ?thesis
    using a by (simp add: abortSignal_def Let_def payloadsOk_fold_onAbort)
qed

lemma payloadsOk_targetSettles: "payloadsOk s \<Longrightarrow> payloadsOk (targetSettles p b v s)"
  by (auto simp add: payloadsOk_def targetSettles_def)

lemma payloadsOk_fold_settleAll:
  "payloadsOk s \<Longrightarrow> \<forall>j \<in> set js. snd j \<noteq> TypeError \<Longrightarrow>
   payloadsOk (fold (\<lambda>(b, pl) s'. settleAll b pl s') js s)"
  by (induction js arbitrary: s) (auto simp add: payloadsOk_settleAll)

lemma payloadsOk_runMicrotasks: "payloadsOk s \<Longrightarrow> payloadsOk (runMicrotasks s)"
proof -
  assume a: "payloadsOk s"
  have "payloadsOk (s\<lparr>jobs := []\<rparr>)" "\<forall>j \<in> set (jobs s). snd j \<noteq> TypeError"
    using a by (simp_all add: payloadsOk_def)
  then show ?thesis by (simp add: runMicrotasks_def payloadsOk_fold_settleAll)
qed

lemma payloadsOk_timerFires: "payloadsOk s \<Longrightarrow> payloadsOk (timerFires (plain f) t s)"
  by (simp add: timerFires_plain payloadsOk_runMicrotasks payloadsOk_afterOutcome payloadsOk_invoked)

lemma payloadsOk_advance: "payloadsOk s \<Longrightarrow> payloadsOk (advance (plain f) t s)"
  by (simp add: advance_plain payloadsOk_timerFires split: option.splits)

lemma payloadsOk_apply_event:
  "payloadsOk s \<Longrightarrow> signalTyped ev \<Longrightarrow> payloadsOk (apply_event cfg (plain f) t ev s)"
  by (cases ev)
     (simp_all add: payloadsOk_debounced payloadsOk_cancel payloadsOk_flush payloadsOk_abortSignal
        payloadsOk_targetSettles payloadsOk_runMicrotasks)

lemma payloadsOk_run:
  "payloadsOk s \<Longrightarrow> \<forall>e \<in> set evs. signalTyped (snd e) \<Longrightarrow> payloadsOk (run cfg (plain f) evs s)"
proof (induction evs arbitrary: s)
  case Nil
  then show ?case by simp
next
  case (Cons e evs)
  obtain t ev where e: "e = (t, ev)" by (cases e)
  have "payloadsOk (apply_event cfg (plain f) t ev (advance (plain f) t s))"
    using Cons.prems by (simp add: e payloadsOk_apply_event payloadsOk_advance)
  then show ?case using Cons.IH Cons.prems(2) by (simp add: e)
qed

lemma payloadsOk_initialState: "payloadsOk initialState"
  by (simp add: payloadsOk_def)

subsection \<open>Quiescence\<close>

lemma fold_targetSettles_keeps:
  "pendingResolves (fold (\<lambda>p. targetSettles p (fst (res p)) (snd (res p))) ps s) = pendingResolves s"
  "pendingRejects (fold (\<lambda>p. targetSettles p (fst (res p)) (snd (res p))) ps s) = pendingRejects s"
  "settlements (fold (\<lambda>p. targetSettles p (fst (res p)) (snd (res p))) ps s) = settlements s"
  "nextPromise (fold (\<lambda>p. targetSettles p (fst (res p)) (snd (res p))) ps s) = nextPromise s"
  "timerId (fold (\<lambda>p. targetSettles p (fst (res p)) (snd (res p))) ps s) = timerId s"
  by (induction ps arbitrary: s; simp)+

lemma fold_targetSettles_awaiting:
  "awaiting (fold (\<lambda>p. targetSettles p (fst (res p)) (snd (res p))) ps s)
     = filter (\<lambda>q. q \<notin> set ps) (awaiting s)"
  by (induction ps arbitrary: s) (simp_all add: conj_commute)

lemma fold_targetSettles_lengths:
  "length (jobs (fold (\<lambda>p. targetSettles p (fst (res p)) (snd (res p))) ps s)) +
   length (awaiting (fold (\<lambda>p. targetSettles p (fst (res p)) (snd (res p))) ps s))
     = length (jobs s) + length (awaiting s)"
proof (induction ps arbitrary: s)
  case Nil
  then show ?case by simp
next
  case (Cons a ps)
  show ?case
    using Cons.IH [of "targetSettles a (fst (res a)) (snd (res a)) s"]
      targetSettles_lengths [of a "fst (res a)" "snd (res a)" s]
    by simp
qed

lemma settleAwaited_fields [simp]:
  "pendingResolves (settleAwaited res s) = pendingResolves s"
  "pendingRejects (settleAwaited res s) = pendingRejects s"
  "settlements (settleAwaited res s) = settlements s"
  "nextPromise (settleAwaited res s) = nextPromise s"
  "timerId (settleAwaited res s) = timerId s"
  "awaiting (settleAwaited res s) = []"
  by (simp_all add: settleAwaited_def fold_targetSettles_keeps fold_targetSettles_awaiting)

lemma settleAwaited_jobs:
  "awaiting s \<noteq> [] \<Longrightarrow> jobs (settleAwaited res s) \<noteq> []"
  using fold_targetSettles_lengths [of res "awaiting s" s]
  by (cases "awaiting s") (auto simp add: settleAwaited_def fold_targetSettles_awaiting)

lemma waitersOk_settleAwaited: "waitersOk (settleAwaited res s) = waitersOk s"
  by (rule waitersOk_cong) simp_all

lemma payloadsOk_fold_targetSettles:
  "payloadsOk s \<Longrightarrow> payloadsOk (fold (\<lambda>p. targetSettles p (fst (res p)) (snd (res p))) ps s)"
  by (induction ps arbitrary: s) (simp_all add: payloadsOk_targetSettles)

lemma payloadsOk_settleAwaited: "payloadsOk s \<Longrightarrow> payloadsOk (settleAwaited res s)"
  by (simp add: settleAwaited_def payloadsOk_fold_targetSettles)

lemma settledCount_le_1: "waitersOk s \<Longrightarrow> settledCount p s \<le> 1"
proof -
  assume "waitersOk s"
  then have "settledCount p s + (if p \<in> set (pendingResolves s) then 1 else 0)
            = (if p < nextPromise s then 1 else 0)"
    unfolding waitersOk_def by blast
  then show ?thesis by (simp split: if_splits)
qed

lemma quiescent_all_settled:
  fixes f res and T :: int and s :: state
  assumes ok: "waitersOk s" and owed: "settlementOwed cfg s"
    and due: "timerId s \<noteq> None \<longrightarrow> timerFiresAt s \<le> T"
  defines "s2 \<equiv> runMicrotasks (settleAwaited res (runMicrotasks (advance (plain f) T s)))"
  shows "pendingResolves s2 = []" "waitersOk s2" "nextPromise s2 = nextPromise s"
proof -
  let ?s1 = "runMicrotasks (advance (plain f) T s)"
  have t: "timerId (advance (plain f) T s) = None"
    using due by (cases "timerId s") (simp_all add: advance_plain)
  have o1: "settlementOwed cfg ?s1"
    using owed by (simp add: owed_advance owed_runMicrotasks)
  have w1: "waitersOk ?s1"
    using ok by (simp add: waitersOk_advance waitersOk_runMicrotasks)
  have a1: "pendingResolves ?s1 \<noteq> [] \<Longrightarrow> awaiting ?s1 \<noteq> []"
    using o1 t by (simp add: settlementOwed_def)
  have "pendingResolves s2 = (if jobs (settleAwaited res ?s1) = [] then pendingResolves ?s1 else [])"
    unfolding s2_def by (simp add: pendingResolves_runMicrotasks)
  then show "pendingResolves s2 = []"
    using a1 settleAwaited_jobs [of ?s1 res] by (cases "pendingResolves ?s1 = []") simp_all
  show "waitersOk s2"
    unfolding s2_def using w1 by (simp add: waitersOk_runMicrotasks waitersOk_settleAwaited)
  show "nextPromise s2 = nextPromise s"
    unfolding s2_def by (simp add: advance_plain split: option.splits)
qed

subsection \<open>No timer loses its handle\<close>

lemma strayTimers_debounced:
  "strayTimers (snd (debounced cfg (plain f) now this allArgs s)) = strayTimers s"
  by (cases "f this (snd (popCallSignal allArgs))") (simp_all add: snd_debounced_plain)

lemma strayTimers_flush: "strayTimers (snd (flush (plain f) now s)) = strayTimers s"
  by (simp add: snd_flush_plain)

lemma strayTimers_fold_onAbort: "strayTimers (fold onAbort ps s) = strayTimers s"
  by (induction ps arbitrary: s) simp_all

lemma strayTimers_abortSignal: "strayTimers (abortSignal n s) = strayTimers s"
  by (simp add: abortSignal_def Let_def strayTimers_fold_onAbort)

lemma strayTimers_advance: "strayTimers (advance (plain f) t s) = strayTimers s"
  by (simp add: advance_plain split: option.splits)

lemma strayTimers_apply_event: "strayTimers (apply_event cfg (plain f) t ev s) = strayTimers s"
  by (cases ev) (simp_all add: strayTimers_debounced strayTimers_flush strayTimers_abortSignal)

lemma strayTimers_run: "strayTimers (run cfg (plain f) evs s) = strayTimers s"
proof (induction evs arbitrary: s)
  case Nil
  then show ?case by simp
next
  case (Cons e evs)
  obtain t ev where e: "e = (t, ev)" by (cases e)
  show ?case by (simp add: e Cons.IH strayTimers_apply_event strayTimers_advance)
qed

section \<open>The claims\<close>

text \<open>
  C1, as the claim states it, fails: it sets no bound on \<^verbatim>\<open>wait\<close>, and the host keeps the
  delay of a timer in 32 bits. With \<^verbatim>\<open>wait\<close> = 2147483648 and calls at 0 and at 10 (less
  than \<^verbatim>\<open>wait\<close> apart) each timer runs one millisecond after it was armed: the target is
  invoked twice, at 1 and at 11, and not once at 2147483658.
\<close>

theorem C1_extend_burst_counterexample:
  "strategy (fst (debounceExtend 2147483648 noOptions)) = Extend \<and>
   trailing (fst (debounceExtend 2147483648 noOptions)) \<and>
   \<not> leading (fst (debounceExtend 2147483648 noOptions)) \<and>
   \<not> hasMaxWait (fst (debounceExtend 2147483648 noOptions)) \<and>
   wait (fst (debounceExtend 2147483648 noOptions)) = 2147483648 \<and>
   timerId (run (fst (debounceExtend 2147483648 noOptions)) (plain echo)
        [(0, Call Undefined [Str ''a''])] initialState) = Some 2147483648 \<and>
   timerFiresAt (run (fst (debounceExtend 2147483648 noOptions)) (plain echo)
        [(0, Call Undefined [Str ''a''])] initialState) = 1 \<and>
   calls (advance (plain echo) 2147483658
     (run (fst (debounceExtend 2147483648 noOptions)) (plain echo)
        [(0, Call Undefined [Str ''a'']), (10, Call Undefined [Str ''b''])] initialState))
     = [(1, Undefined, Some [Str ''a'']), (11, Undefined, Some [Str ''b''])]"
  by code_simp

text \<open>
  C1, amended. A wrapper with the \<^verbatim>\<open>extend\<close> strategy, the trailing edge only, no
  \<^verbatim>\<open>maxWait\<close> and a \<^verbatim>\<open>wait\<close> from 0 to 2147483647 (the largest delay the host keeps) is idle:
  no timer is armed and nothing is staged. A burst of calls arrives whose times do not
  decrease and in which each call comes less than \<^verbatim>\<open>wait\<close> after the one before; the target
  does not act on the wrapper while it runs. Once \<^verbatim>\<open>wait\<close> has passed after the last call,
  the burst has added exactly one invocation of the target, at the time of the last call
  plus \<^verbatim>\<open>wait\<close>, with \<^verbatim>\<open>this\<close> and the arguments of the last call; no timer is armed any more,
  and none has lost its handle: each call cleared the timer of the call before it.
\<close>

theorem C1_extend_burst_single_invocation:
  fixes T :: int and burst :: "(int \<times> jsval \<times> jsval list) list"
  assumes cfg: "strategy cfg = Extend" "trailing cfg" "\<not> leading cfg" "\<not> hasMaxWait cfg"
      "0 \<le> wait cfg" "wait cfg \<le> 2147483647"
    and idle: "\<not> pending s"
    and burst: "burst \<noteq> []"
      "successively (\<lambda>x y. fst x \<le> fst y \<and> fst y - fst x < wait cfg) burst"
    and T: "fst (last burst) + wait cfg \<le> T"
  shows "calls (advance (plain f) T (run cfg (plain f) (map (\<lambda>(t, c, a). (t, Call c a)) burst) s))
           = calls s @ [(fst (last burst) + wait cfg, fst (snd (last burst)),
                         Some (snd (popCallSignal (snd (snd (last burst))))))] \<and>
         timerId (advance (plain f) T (run cfg (plain f) (map (\<lambda>(t, c, a). (t, Call c a)) burst) s))
           = None \<and>
         strayTimers (advance (plain f) T (run cfg (plain f) (map (\<lambda>(t, c, a). (t, Call c a)) burst) s))
           = strayTimers s"
proof -
  obtain t c a rest where b: "burst = (t, c, a) # rest"
    using burst(1) by (cases burst) auto
  have adv: "advance (plain f) t s = s"
    using idle by (simp add: advance_plain pending_def)
  let ?s' = "snd (debounced cfg (plain f) t c a s)"
  have s': "?s' = scheduled cfg f t (staged cfg t c a s)"
    using cfg by (simp add: snd_debounced_trailing_only)
  have d: "delayOf cfg t (staged cfg t c a s) = wait cfg"
    using cfg by (simp add: delayOf_extend_no_max)
  have run: "run cfg (plain f) (map (\<lambda>(t, c, a). (t, Call c a)) burst) s
             = run cfg (plain f) (map (\<lambda>(t, c, a). (t, Call c a)) rest) ?s'"
    by (simp add: b adv)
  show ?thesis
  proof (cases "wait cfg = 0")
    case True
    have "rest = []"
    proof (cases rest)
      case (Cons y ys)
      then have "fst (t, c, a) \<le> fst y \<and> fst y - fst (t, c, a) < wait cfg"
        using burst(2) by (simp add: b)
      then show ?thesis using True by auto
    qed simp
    moreover have "calls ?s' = calls s @ [(t, c, Some (snd (popCallSignal a)))]" "timerId ?s' = None"
      "strayTimers ?s' = strayTimers s"
      unfolding s' using True by (simp_all add: d)
    ultimately show ?thesis
      unfolding run using True by (simp add: b advance_no_timer)
  next
    case False
    then have pos: "0 < wait cfg" using cfg(5) by simp
    have f: "timerId ?s' = Some (t + wait cfg)" "timerFiresAt ?s' = t + wait cfg"
      "pendingArgs ?s' = Some (snd (popCallSignal a))"
      "pendingThis ?s' = c" "calls ?s' = calls s" "strayTimers ?s' = strayTimers s"
      unfolding s' using pos cfg(6) by (simp_all add: d timeoutDelay_small)
    have "calls (advance (plain f) T (run cfg (plain f) (map (\<lambda>(t, c, a). (t, Call c a)) rest) ?s'))
         = calls ?s' @ [(fst (last ((t, c, a) # rest)) + wait cfg,
                      fst (snd (last ((t, c, a) # rest))),
                      Some (snd (popCallSignal (snd (snd (last ((t, c, a) # rest)))))))] \<and>
        timerId (advance (plain f) T (run cfg (plain f) (map (\<lambda>(t, c, a). (t, Call c a)) rest) ?s'))
         = None \<and>
        strayTimers (advance (plain f) T (run cfg (plain f) (map (\<lambda>(t, c, a). (t, Call c a)) rest) ?s'))
         = strayTimers ?s'"
      using burst(2) T
      by (intro extend_burst_armed cfg(1-4) pos cfg(6) f(1,2,3,4)) (simp_all add: b)
    then show ?thesis
      unfolding run by (simp add: b f(5,6))
  qed
qed

theorem C1_extend_burst_single_invocation_witness:
  "strategy (fst (debounceExtend 50 noOptions)) = Extend \<and>
   trailing (fst (debounceExtend 50 noOptions)) \<and>
   \<not> leading (fst (debounceExtend 50 noOptions)) \<and>
   \<not> hasMaxWait (fst (debounceExtend 50 noOptions)) \<and>
   0 \<le> wait (fst (debounceExtend 50 noOptions)) \<and>
   wait (fst (debounceExtend 50 noOptions)) \<le> 2147483647 \<and>
   \<not> pending initialState \<and>
   successively (\<lambda>x y. fst x \<le> fst y \<and> fst y - fst x < wait (fst (debounceExtend 50 noOptions)))
     [(0, Undefined, [Str ''a'']), (10, Undefined, [Str ''b'']), (30, Undefined, [Str ''c''])] \<and>
   calls (advance (plain echo) 80
     (run (fst (debounceExtend 50 noOptions)) (plain echo)
        (map (\<lambda>(t, c, a). (t, Call c a))
           [(0, Undefined, [Str ''a'']), (10, Undefined, [Str ''b'']), (30, Undefined, [Str ''c''])])
        initialState))
     = [(80, Undefined, Some [Str ''c''])] \<and>
   strayTimers (advance (plain echo) 80
     (run (fst (debounceExtend 50 noOptions)) (plain echo)
        (map (\<lambda>(t, c, a). (t, Call c a))
           [(0, Undefined, [Str ''a'']), (10, Undefined, [Str ''b'']), (30, Undefined, [Str ''c''])])
        initialState)) = 0"
proof -
  let ?cfg = "fst (debounceExtend 50 noOptions)"
  let ?burst = "[(0::int, Undefined, [Str ''a'']), (10, Undefined, [Str ''b'']), (30, Undefined, [Str ''c''])]"
  have h: "strategy ?cfg = Extend" "trailing ?cfg" "\<not> leading ?cfg" "\<not> hasMaxWait ?cfg"
    "0 \<le> wait ?cfg" "wait ?cfg \<le> 2147483647"
    by (simp_all add: extend50_cfg)
  have idle: "\<not> pending initialState" by simp
  have b: "?burst \<noteq> []"
    "successively (\<lambda>x y. fst x \<le> fst y \<and> fst y - fst x < wait ?cfg) ?burst"
    by (simp_all add: extend50_cfg)
  have T: "fst (last ?burst) + wait ?cfg \<le> 80" by (simp add: extend50_cfg)
  have pop: "snd (popCallSignal [Str ''c'']) = [Str ''c'']" by (simp add: popCallSignal_def)
  show ?thesis
    using h idle b(2)
      C1_extend_burst_single_invocation [OF h idle b T, where f = echo]
    by (simp add: extend50_cfg pop)
qed

text \<open>
  C2. Under the \<^verbatim>\<open>fixedDeadline\<close> strategy a call that finds no cycle open starts one and
  sets the deadline to the time of that call plus \<^verbatim>\<open>wait\<close>; a call that finds a cycle
  open (arguments staged or a timer armed) leaves the deadline as it is, and a timer
  armed by a call is never due after the deadline. For the burst of the test-suite
  (\<^verbatim>\<open>wait = 80\<close>, calls at 0 and at 40): after the second call the timer is still due
  at 80, nothing has been invoked by 79, and at 80 the target is invoked once, with the
  arguments of the second call.
\<close>

theorem C2_fixedDeadline_set_once_per_cycle:
  assumes "strategy cfg = FixedDeadline"
  shows "(\<not> pending s \<longrightarrow>
            firstCallTime (snd (debounced cfg (plain f) now this allArgs s)) = now \<and>
            fixedDeadline (snd (debounced cfg (plain f) now this allArgs s)) = now + wait cfg) \<and>
         (pending s \<longrightarrow>
            fixedDeadline (snd (debounced cfg (plain f) now this allArgs s)) = fixedDeadline s) \<and>
         (trailing cfg \<longrightarrow>
            (\<forall>due. timerId (snd (debounced cfg (plain f) now this allArgs s)) = Some due \<longrightarrow>
               due \<le> fixedDeadline (snd (debounced cfg (plain f) now this allArgs s)))) \<and>
         timerId (run (fst (debounceFixedDeadline 80 noOptions)) (plain f)
                    [(0, Call c1 a1), (40, Call c2 a2)] initialState) = Some 80 \<and>
         calls (advance (plain f) 79
                  (run (fst (debounceFixedDeadline 80 noOptions)) (plain f)
                     [(0, Call c1 a1), (40, Call c2 a2)] initialState)) = [] \<and>
         calls (advance (plain f) 80
                  (run (fst (debounceFixedDeadline 80 noOptions)) (plain f)
                     [(0, Call c1 a1), (40, Call c2 a2)] initialState))
           = [(80, c2, Some (snd (popCallSignal a2)))]"
proof (intro conjI impI allI)
  assume "\<not> pending s"
  then show "firstCallTime (snd (debounced cfg (plain f) now this allArgs s)) = now"
    by (simp add: debounced_firstCallTime_field)
  from \<open>\<not> pending s\<close> assms
  show "fixedDeadline (snd (debounced cfg (plain f) now this allArgs s)) = now + wait cfg"
    by (simp add: debounced_fixedDeadline_field)
next
  assume "pending s"
  then show "fixedDeadline (snd (debounced cfg (plain f) now this allArgs s)) = fixedDeadline s"
    by (simp add: debounced_fixedDeadline_field)
next
  fix due
  assume "trailing cfg" "timerId (snd (debounced cfg (plain f) now this allArgs s)) = Some due"
  with assms show "due \<le> fixedDeadline (snd (debounced cfg (plain f) now this allArgs s))"
    by (rule debounced_timer_fixed)
qed (rule fixed80_scenario)+

theorem C2_fixedDeadline_set_once_per_cycle_witness:
  "strategy (fst (debounceFixedDeadline 80 noOptions)) = FixedDeadline \<and>
   fixedDeadline (snd (debounced (fst (debounceFixedDeadline 80 noOptions)) (plain echo) 0 Undefined
                         [Str ''1''] initialState)) = 80 \<and>
   fixedDeadline (snd (debounced (fst (debounceFixedDeadline 80 noOptions)) (plain echo) 40 Undefined
                         [Str ''2'']
                         (snd (debounced (fst (debounceFixedDeadline 80 noOptions)) (plain echo) 0
                                 Undefined [Str ''1''] initialState)))) = 80"
proof -
  have h: "strategy (fst (debounceFixedDeadline 80 noOptions)) = FixedDeadline"
    by (rule fixed80_cfg)
  have w: "wait (fst (debounceFixedDeadline 80 noOptions)) = 80"
    by (rule fixed80_cfg)
  have p: "pending (snd (debounced (fst (debounceFixedDeadline 80 noOptions)) (plain echo) 0
                           Undefined [Str ''1''] initialState))"
    by code_simp
  show ?thesis
    using h w p
      C2_fixedDeadline_set_once_per_cycle [OF h, where s = initialState and f = echo and now = 0
        and this = Undefined and allArgs = "[Str ''1'']"]
      C2_fixedDeadline_set_once_per_cycle [OF h,
        where s = "snd (debounced (fst (debounceFixedDeadline 80 noOptions)) (plain echo) 0
                          Undefined [Str ''1''] initialState)"
        and f = echo and now = 40 and this = Undefined and allArgs = "[Str ''2'']"]
    by simp
qed

text \<open>
  C3. With a finite \<^verbatim>\<open>maxWait\<close> of \<open>m\<close>, \<open>schedule\<close> takes the minimum of the delay of the
  strategy (\<^verbatim>\<open>wait\<close> under \<^verbatim>\<open>extend\<close>, the time left to the fixed deadline otherwise) and
  the budget \<open>m - (now - firstCallTime)\<close>: when the minimum is positive it arms the timer
  with exactly that delay and does not invoke; when it is zero or negative it invokes
  the target at once, with what is staged, and leaves no timer. The same holds of a
  call to a wrapper with the trailing edge only. Hence with \<^verbatim>\<open>wait = 300\<close> and
  \<^verbatim>\<open>maxWait = 2000\<close>, under either strategy, a stream of calls 100 ms apart, however
  long, has its first invocation no later than 2000 ms after its first call.
\<close>

theorem C3_maxWait_caps_delay:
  fixes now t0 T :: int and s :: state and st :: "strategy option"
  assumes "hasMaxWait cfg" "maxWait cfg = Some m"
  shows "(0 < min (if strategy cfg = Extend then wait cfg else max 0 (fixedDeadline s - now))
                  (m - (now - firstCallTime s)) \<longrightarrow>
            timerId (snd (schedule cfg (plain f) now s)) =
              Some (now + min (if strategy cfg = Extend then wait cfg
                               else max 0 (fixedDeadline s - now))
                              (m - (now - firstCallTime s))) \<and>
            calls (snd (schedule cfg (plain f) now s)) = calls s) \<and>
         (min (if strategy cfg = Extend then wait cfg else max 0 (fixedDeadline s - now))
              (m - (now - firstCallTime s)) \<le> 0 \<longrightarrow>
            timerId (snd (schedule cfg (plain f) now s)) = None \<and>
            calls (snd (schedule cfg (plain f) now s)) =
              calls s @ [(now, pendingThis s, pendingArgs s)]) \<and>
         (trailing cfg \<and> \<not> leading cfg \<longrightarrow>
            (0 < min (if strategy cfg = Extend then wait cfg
                      else max 0 (fixedDeadline (snd (debounced cfg (plain f) now this allArgs s)) - now))
                     (m - (now - firstCallTime (snd (debounced cfg (plain f) now this allArgs s)))) \<longrightarrow>
               timerId (snd (debounced cfg (plain f) now this allArgs s)) =
                 Some (now + min (if strategy cfg = Extend then wait cfg
                      else max 0 (fixedDeadline (snd (debounced cfg (plain f) now this allArgs s)) - now))
                     (m - (now - firstCallTime (snd (debounced cfg (plain f) now this allArgs s))))) \<and>
               calls (snd (debounced cfg (plain f) now this allArgs s)) = calls s) \<and>
            (min (if strategy cfg = Extend then wait cfg
                      else max 0 (fixedDeadline (snd (debounced cfg (plain f) now this allArgs s)) - now))
                     (m - (now - firstCallTime (snd (debounced cfg (plain f) now this allArgs s)))) \<le> 0 \<longrightarrow>
               timerId (snd (debounced cfg (plain f) now this allArgs s)) = None \<and>
               calls (snd (debounced cfg (plain f) now this allArgs s)) =
                 calls s @ [(now, this, Some (snd (popCallSignal allArgs)))])) \<and>
         (t0 + 2000 \<le> T \<longrightarrow>
            calls (advance (plain f) T
              (run (createConfig \<lparr> opt_wait = 300, opt_leading = None, opt_trailing = None,
                      opt_maxWait = Some 2000, opt_strategy = st, opt_signal = None \<rparr>)
                 (plain f) (map (\<lambda>k. (t0 + 100 * int k, Call (c k) (a k))) [0..<Suc n])
                 initialState)) \<noteq> [] \<and>
            fst (hd (calls (advance (plain f) T
              (run (createConfig \<lparr> opt_wait = 300, opt_leading = None, opt_trailing = None,
                      opt_maxWait = Some 2000, opt_strategy = st, opt_signal = None \<rparr>)
                 (plain f) (map (\<lambda>k. (t0 + 100 * int k, Call (c k) (a k))) [0..<Suc n])
                 initialState)))) \<le> t0 + 2000)"
proof (intro conjI)
  show "trailing cfg \<and> \<not> leading cfg \<longrightarrow>
            (0 < min (if strategy cfg = Extend then wait cfg
                      else max 0 (fixedDeadline (snd (debounced cfg (plain f) now this allArgs s)) - now))
                     (m - (now - firstCallTime (snd (debounced cfg (plain f) now this allArgs s)))) \<longrightarrow>
               timerId (snd (debounced cfg (plain f) now this allArgs s)) =
                 Some (now + min (if strategy cfg = Extend then wait cfg
                      else max 0 (fixedDeadline (snd (debounced cfg (plain f) now this allArgs s)) - now))
                     (m - (now - firstCallTime (snd (debounced cfg (plain f) now this allArgs s))))) \<and>
               calls (snd (debounced cfg (plain f) now this allArgs s)) = calls s) \<and>
            (min (if strategy cfg = Extend then wait cfg
                      else max 0 (fixedDeadline (snd (debounced cfg (plain f) now this allArgs s)) - now))
                     (m - (now - firstCallTime (snd (debounced cfg (plain f) now this allArgs s)))) \<le> 0 \<longrightarrow>
               timerId (snd (debounced cfg (plain f) now this allArgs s)) = None \<and>
               calls (snd (debounced cfg (plain f) now this allArgs s)) =
                 calls s @ [(now, this, Some (snd (popCallSignal allArgs)))])"
    using debounced_with_maxWait [OF assms, where f = f and now = now and this = this
        and allArgs = allArgs and s = s]
    by blast
next
  show "t0 + 2000 \<le> T \<longrightarrow>
            calls (advance (plain f) T
              (run (createConfig \<lparr> opt_wait = 300, opt_leading = None, opt_trailing = None,
                      opt_maxWait = Some 2000, opt_strategy = st, opt_signal = None \<rparr>)
                 (plain f) (map (\<lambda>k. (t0 + 100 * int k, Call (c k) (a k))) [0..<Suc n])
                 initialState)) \<noteq> [] \<and>
            fst (hd (calls (advance (plain f) T
              (run (createConfig \<lparr> opt_wait = 300, opt_leading = None, opt_trailing = None,
                      opt_maxWait = Some 2000, opt_strategy = st, opt_signal = None \<rparr>)
                 (plain f) (map (\<lambda>k. (t0 + 100 * int k, Call (c k) (a k))) [0..<Suc n])
                 initialState)))) \<le> t0 + 2000"
    using maxWait_stream [where ?t0.0 = t0 and T = T and f = f and st = st and c = c and a = a and n = n]
    by blast
qed (use schedule_with_maxWait [OF assms, where now = now and s = s and f = f] in blast)+

theorem C3_maxWait_caps_delay_witness:
  "hasMaxWait (createConfig \<lparr> opt_wait = 300, opt_leading = None, opt_trailing = None,
                  opt_maxWait = Some 2000, opt_strategy = None, opt_signal = None \<rparr>) \<and>
   maxWait (createConfig \<lparr> opt_wait = 300, opt_leading = None, opt_trailing = None,
                  opt_maxWait = Some 2000, opt_strategy = None, opt_signal = None \<rparr>) = Some 2000 \<and>
   fst (hd (calls (advance (plain echo) 2500
      (run (createConfig \<lparr> opt_wait = 300, opt_leading = None, opt_trailing = None,
              opt_maxWait = Some 2000, opt_strategy = None, opt_signal = None \<rparr>)
         (plain echo) (map (\<lambda>k. (0 + 100 * int k, Call Undefined [Num (int k)])) [0..<Suc 24])
         initialState)))) \<le> 0 + 2000"
proof -
  let ?cfg = "createConfig \<lparr> opt_wait = 300, opt_leading = None, opt_trailing = None,
                  opt_maxWait = Some 2000, opt_strategy = None, opt_signal = None \<rparr>"
  have h1: "hasMaxWait ?cfg" by (simp add: createConfig_def)
  have h2: "maxWait ?cfg = Some 2000" by (simp add: createConfig_def)
  have T: "(0::int) + 2000 \<le> 2500" by simp
  show ?thesis
    using h1 h2 T
      C3_maxWait_caps_delay [OF h1 h2, where ?t0.0 = 0 and T = 2500 and f = echo and st = None
        and c = "\<lambda>k. Undefined" and a = "\<lambda>k. [Num (int k)]" and n = 24]
    by blast
qed

text \<open>
  C4. \<open>invoke\<close> clears the staged arguments before it calls the target, but not the list of
  waiters: that list is read and cleared by \<open>settleAll\<close>, which runs only when the outcome
  is delivered. After the synchronous part of a timer-driven \<open>invoke\<close> the waiter of the
  call is still registered. With a target that calls the wrapper again while it runs, the
  promise of the re-entrant call (number 1) is resolved with the result of the invocation
  that was running (\<^verbatim>\<open>"outer result"\<close>), and when the cycle the re-entrant call opened
  invokes the target at 100, its result settles nobody.
\<close>

theorem C4_waiters_not_snapshotted_before_target:
  "pendingResolves (snd (invoke (plain echo) 50
      (run (fst (debounceExtend 50 noOptions)) (plain echo)
         [(0, Call Undefined [Str ''outer''])] initialState))) = [0] \<and>
   settlements (advance (reentrantTarget (fst (debounceExtend 50 noOptions))) 50
      (run (fst (debounceExtend 50 noOptions)) (reentrantTarget (fst (debounceExtend 50 noOptions)))
         [(0, Call Undefined [Str ''outer''])] initialState))
     = [(0, True, Value (Str ''outer result'')), (1, True, Value (Str ''outer result''))] \<and>
   timerId (advance (reentrantTarget (fst (debounceExtend 50 noOptions))) 50
      (run (fst (debounceExtend 50 noOptions)) (reentrantTarget (fst (debounceExtend 50 noOptions)))
         [(0, Call Undefined [Str ''outer''])] initialState)) = Some 100 \<and>
   calls (advance (reentrantTarget (fst (debounceExtend 50 noOptions))) 100
      (run (fst (debounceExtend 50 noOptions)) (reentrantTarget (fst (debounceExtend 50 noOptions)))
         [(0, Call Undefined [Str ''outer''])] initialState))
     = [(50, Undefined, Some [Str ''outer'']), (100, Undefined, Some [Str ''inner''])] \<and>
   settlements (advance (reentrantTarget (fst (debounceExtend 50 noOptions))) 100
      (run (fst (debounceExtend 50 noOptions)) (reentrantTarget (fst (debounceExtend 50 noOptions)))
         [(0, Call Undefined [Str ''outer''])] initialState))
     = [(0, True, Value (Str ''outer result'')), (1, True, Value (Str ''outer result''))]"
  by code_simp

text \<open>
  C5, as the claim states it, fails: with both edges off a call (here one without a
  signal) registers its waiter, but nothing is invoked and no timer is armed, so however
  much time passes the promise of the call stays unsettled.
\<close>

theorem C5_waiter_counterexample:
  "\<not> leading neitherEdge50 \<and> \<not> trailing neitherEdge50 \<and>
   pendingResolves (runMicrotasks (settleAwaited (\<lambda>p. (True, Undefined))
      (runMicrotasks (advance (plain echo) 1000000
         (run neitherEdge50 (plain echo) [(0, Call Undefined [Str ''a''])] initialState))))) = [0] \<and>
   settlements (runMicrotasks (settleAwaited (\<lambda>p. (True, Undefined))
      (runMicrotasks (advance (plain echo) 1000000
         (run neitherEdge50 (plain echo) [(0, Call Undefined [Str ''a''])] initialState))))) = [] \<and>
   timerId (run neitherEdge50 (plain echo) [(0, Call Undefined [Str ''a''])] initialState) = None \<and>
   jobs (run neitherEdge50 (plain echo) [(0, Call Undefined [Str ''a''])] initialState) = [] \<and>
   awaiting (run neitherEdge50 (plain echo) [(0, Call Undefined [Str ''a''])] initialState) = [] \<and>
   calls (run neitherEdge50 (plain echo) [(0, Call Undefined [Str ''a''])] initialState) = []"
  by code_simp

text \<open>
  C5, amended. Take a new wrapper, a target that does not act on the wrapper while it
  runs, and any history of calls (in which the value under a \<^verbatim>\<open>signal\<close> key, where there
  is one, is an abort signal, \<^verbatim>\<open>undefined\<close> or \<^verbatim>\<open>null\<close>), cancellations, flushes, aborts,
  settlements of the target's promises and microtask checkpoints. Whatever the
  configuration, no promise of a call has been settled more than once at the end of the
  history. When at least one edge is on, then once the timer, if one is armed, has fired,
  the promises the target returned have settled and the microtask queue has drained, no
  waiter is registered any more and every promise created for a call has been settled
  exactly once, each settlement being the value or the failure of an invocation, the
  failure of a cancellation, or the failure of an abort.
\<close>

theorem C5_waiters_settled_exactly_once:
  fixes T :: int
  assumes "list_all (\<lambda>e. signalTyped (snd e)) evs"
  shows "(\<forall>p. settledCount p (run cfg (plain f) evs initialState) \<le> 1) \<and>
         ((leading cfg \<or> trailing cfg) \<and>
          (timerId (run cfg (plain f) evs initialState) \<noteq> None \<longrightarrow>
             timerFiresAt (run cfg (plain f) evs initialState) \<le> T) \<longrightarrow>
            pendingResolves (runMicrotasks (settleAwaited res (runMicrotasks
              (advance (plain f) T (run cfg (plain f) evs initialState))))) = [] \<and>
            pendingRejects (runMicrotasks (settleAwaited res (runMicrotasks
              (advance (plain f) T (run cfg (plain f) evs initialState))))) = [] \<and>
            (\<forall>p < nextPromise (run cfg (plain f) evs initialState).
               settledCount p (runMicrotasks (settleAwaited res (runMicrotasks
                 (advance (plain f) T (run cfg (plain f) evs initialState))))) = 1) \<and>
            (\<forall>x \<in> set (settlements (runMicrotasks (settleAwaited res (runMicrotasks
                 (advance (plain f) T (run cfg (plain f) evs initialState)))))).
               (\<exists>v. snd (snd x) = Value v) \<or> (\<exists>e. snd (snd x) = TargetError e) \<or>
               snd (snd x) = DebounceCanceled \<or> snd (snd x) = AbortError))"
proof -
  let ?s = "run cfg (plain f) evs initialState"
  let ?q = "runMicrotasks (settleAwaited res (runMicrotasks (advance (plain f) T ?s)))"
  have typed: "\<forall>e \<in> set evs. signalTyped (snd e)"
    using assms by (simp add: list_all_iff)
  have ok: "waitersOk ?s"
    using waitersOk_initialState typed by (rule waitersOk_run)
  have pl: "payloadsOk ?s"
    using payloadsOk_initialState typed by (rule payloadsOk_run)
  have once: "\<forall>p. settledCount p ?s \<le> 1"
    using settledCount_le_1 [OF ok] by blast
  have quiet: "pendingResolves ?q = [] \<and> pendingRejects ?q = [] \<and>
               (\<forall>p < nextPromise ?s. settledCount p ?q = 1) \<and>
               (\<forall>x \<in> set (settlements ?q).
                  (\<exists>v. snd (snd x) = Value v) \<or> (\<exists>e. snd (snd x) = TargetError e) \<or>
                  snd (snd x) = DebounceCanceled \<or> snd (snd x) = AbortError)"
    if edge: "leading cfg \<or> trailing cfg"
      and due: "timerId ?s \<noteq> None \<longrightarrow> timerFiresAt ?s \<le> T"
  proof -
    have owed: "settlementOwed cfg ?s"
      using edge typed waitersOk_initialState owed_initialState by (rule owed_run)
    note q = quiescent_all_settled [OF ok owed due, of res f]
    have "settledCount p ?q = 1" if "p < nextPromise ?s" for p
    proof -
      have "settledCount p ?q + (if p \<in> set (pendingResolves ?q) then 1 else 0)
              = (if p < nextPromise ?q then 1 else 0)"
        using q(2) unfolding waitersOk_def by blast
      then show ?thesis using q(1,3) that by simp
    qed
    moreover have "payloadsOk ?q"
      using pl by (simp add: payloadsOk_runMicrotasks payloadsOk_settleAwaited payloadsOk_advance)
    then have "(\<exists>v. snd (snd x) = Value v) \<or> (\<exists>e. snd (snd x) = TargetError e) \<or>
               snd (snd x) = DebounceCanceled \<or> snd (snd x) = AbortError"
      if "x \<in> set (settlements ?q)" for x
      using that by (cases "snd (snd x)") (auto simp add: payloadsOk_def)
    moreover have "pendingRejects ?q = pendingResolves ?q"
      using q(2) by (simp add: waitersOk_def)
    ultimately show ?thesis using q(1) by simp
  qed
  show ?thesis using once quiet by blast
qed

theorem C5_waiters_settled_exactly_once_witness:
  "list_all (\<lambda>e. signalTyped (snd e))
     [(0, Call Undefined [Str ''a'']), (10, Abort 3),
      (20, Call Undefined [Str ''b'', Obj [(''signal'', AbortSignal 5)]]), (30, Abort 5),
      (40, Call Undefined [Str ''c''])] \<and>
   trailing (fst (debounceExtend 50 noOptions)) \<and>
   timerFiresAt (run (fst (debounceExtend 50 noOptions)) (plain echo)
     [(0, Call Undefined [Str ''a'']), (10, Abort 3),
      (20, Call Undefined [Str ''b'', Obj [(''signal'', AbortSignal 5)]]), (30, Abort 5),
      (40, Call Undefined [Str ''c''])] initialState) = 90 \<and>
   nextPromise (run (fst (debounceExtend 50 noOptions)) (plain echo)
     [(0, Call Undefined [Str ''a'']), (10, Abort 3),
      (20, Call Undefined [Str ''b'', Obj [(''signal'', AbortSignal 5)]]), (30, Abort 5),
      (40, Call Undefined [Str ''c''])] initialState) = 3 \<and>
   settledCount 1 (runMicrotasks (settleAwaited (\<lambda>p. (True, Undefined)) (runMicrotasks
     (advance (plain echo) 90 (run (fst (debounceExtend 50 noOptions)) (plain echo)
     [(0, Call Undefined [Str ''a'']), (10, Abort 3),
      (20, Call Undefined [Str ''b'', Obj [(''signal'', AbortSignal 5)]]), (30, Abort 5),
      (40, Call Undefined [Str ''c''])] initialState))))) = 1 \<and>
   settlements (runMicrotasks (settleAwaited (\<lambda>p. (True, Undefined)) (runMicrotasks
     (advance (plain echo) 90 (run (fst (debounceExtend 50 noOptions)) (plain echo)
     [(0, Call Undefined [Str ''a'']), (10, Abort 3),
      (20, Call Undefined [Str ''b'', Obj [(''signal'', AbortSignal 5)]]), (30, Abort 5),
      (40, Call Undefined [Str ''c''])] initialState)))))
     = [(1, False, AbortError), (0, True, Value (Arr [Str ''c''])), (2, True, Value (Arr [Str ''c'']))]"
proof -
  let ?evs = "[(0, Call Undefined [Str ''a'']), (10, Abort 3),
      (20, Call Undefined [Str ''b'', Obj [(''signal'', AbortSignal 5)]]), (30, Abort 5),
      (40, Call Undefined [Str ''c''])]"
  let ?cfg = "fst (debounceExtend 50 noOptions)"
  have h: "list_all (\<lambda>e. signalTyped (snd e)) ?evs" by code_simp
  have tr: "trailing ?cfg" by (rule extend50_cfg)
  have t: "timerFiresAt (run ?cfg (plain echo) ?evs initialState) = 90" by code_simp
  have n: "nextPromise (run ?cfg (plain echo) ?evs initialState) = 3" by code_simp
  have e: "settlements (runMicrotasks (settleAwaited (\<lambda>p. (True, Undefined)) (runMicrotasks
     (advance (plain echo) 90 (run ?cfg (plain echo) ?evs initialState)))))
     = [(1, False, AbortError), (0, True, Value (Arr [Str ''c''])), (2, True, Value (Arr [Str ''c'']))]"
    by code_simp
  have "settledCount 1 (runMicrotasks (settleAwaited (\<lambda>p. (True, Undefined)) (runMicrotasks
     (advance (plain echo) 90 (run ?cfg (plain echo) ?evs initialState))))) = 1"
    using C5_waiters_settled_exactly_once [OF h, where cfg = ?cfg and f = echo and T = 90
        and res = "\<lambda>p. (True, Undefined)"] tr t n
    by simp
  then show ?thesis using h tr t n e by simp
qed

text \<open>
  C6, as the claim states it, fails: a wrapper with no cycle open (no timer, nothing
  staged) can still hold the waiter of an invocation whose result is a promise that has
  not settled, and \<open>cancel\<close> rejects that waiter.
\<close>

theorem C6_cancel_counterexample:
  "\<not> pending (advance (plain inFlight) 50
       (run (fst (debounceExtend 50 noOptions)) (plain inFlight)
          [(0, Call Undefined [Str ''a''])] initialState)) \<and>
   calls (advance (plain inFlight) 50
       (run (fst (debounceExtend 50 noOptions)) (plain inFlight)
          [(0, Call Undefined [Str ''a''])] initialState)) = [(50, Undefined, Some [Str ''a''])] \<and>
   settlements (advance (plain inFlight) 50
       (run (fst (debounceExtend 50 noOptions)) (plain inFlight)
          [(0, Call Undefined [Str ''a''])] initialState)) = [] \<and>
   settlements (cancel (advance (plain inFlight) 50
       (run (fst (debounceExtend 50 noOptions)) (plain inFlight)
          [(0, Call Undefined [Str ''a''])] initialState))) = [(0, False, DebounceCanceled)]"
  by code_simp

text \<open>
  C6, amended. In every state \<open>cancel\<close> clears the timer and the staged arguments, so that
  \<open>pending\<close> is false afterwards and no passage of time invokes the target; it invokes
  nothing itself; and it rejects every waiter that is registered, in order, with the
  cancellation failure, leaving none registered. When no cycle is open and no waiter is
  registered it changes nothing but the stored \<^verbatim>\<open>this\<close>, which it sets to \<^verbatim>\<open>null\<close>.
\<close>

theorem C6_cancel_ends_cycle:
  "timerId (cancel s) = None \<and> pendingArgs (cancel s) = None \<and> \<not> pending (cancel s) \<and>
   pendingResolves (cancel s) = (if pendingRejects s \<noteq> [] then [] else pendingResolves s) \<and>
   pendingRejects (cancel s) = [] \<and>
   settlements (cancel s) =
     settlements s @ map (\<lambda>w. (w, False, DebounceCanceled)) (pendingRejects s) \<and>
   calls (cancel s) = calls s \<and>
   advance fn T (cancel s) = cancel s \<and>
   (\<not> pending s \<and> pendingRejects s = [] \<longrightarrow> cancel s = s\<lparr>pendingThis := Null\<rparr>)"
proof (intro conjI impI)
  show "\<not> pending (cancel s)"
    by (simp add: pending_def)
  show "settlements (cancel s) =
          settlements s @ map (\<lambda>w. (w, False, DebounceCanceled)) (pendingRejects s)"
    by (rule settlements_cancel)
  show "advance fn T (cancel s) = cancel s"
    by (rule advance_no_timer) simp
next
  assume "\<not> pending s \<and> pendingRejects s = []"
  then show "cancel s = s\<lparr>pendingThis := Null\<rparr>"
    by (simp add: cancel_idle)
qed simp_all

theorem C6_cancel_ends_cycle_witness:
  "\<not> pending initialState \<and> pendingRejects initialState = [] \<and>
   cancel initialState = initialState\<lparr>pendingThis := Null\<rparr> \<and>
   settlements (cancel (run (fst (debounceExtend 50 noOptions)) (plain echo)
          [(0, Call Undefined [Str ''a'']), (10, Call Undefined [Str ''b''])] initialState))
     = [(0, False, DebounceCanceled), (1, False, DebounceCanceled)]"
proof -
  have e: "pendingRejects (run (fst (debounceExtend 50 noOptions)) (plain echo)
          [(0, Call Undefined [Str ''a'']), (10, Call Undefined [Str ''b''])] initialState) = [0, 1]"
    "settlements (run (fst (debounceExtend 50 noOptions)) (plain echo)
          [(0, Call Undefined [Str ''a'']), (10, Call Undefined [Str ''b''])] initialState) = []"
    by code_simp+
  show ?thesis
    using e
      C6_cancel_ends_cycle [where s = initialState]
      C6_cancel_ends_cycle [where s = "run (fst (debounceExtend 50 noOptions)) (plain echo)
          [(0, Call Undefined [Str ''a'']), (10, Call Undefined [Str ''b''])] initialState"]
    by simp
qed




text \<open>
  C8. A call whose signal has already fired has its promise rejected at once and is not
  registered as a waiter, but it is not kept out of the cycle: on an idle wrapper with
  the trailing edge it stages its arguments and arms the timer, and the target is
  invoked with those arguments when the timer fires; on an idle wrapper with the leading
  edge only it invokes the target at once, and the promise the call returns is resolved
  with the result.
\<close>

theorem C8_already_aborted_call_enters_cycle:
  "settlements (snd (debounced (fst (debounceExtend 50 noOptions)) (plain echo) 0 Undefined
      [Str ''x'', Obj [(''signal'', AbortSignal 7)]] (abortSignal 7 initialState)))
     = [(0, False, AbortError)] \<and>
   pendingResolves (snd (debounced (fst (debounceExtend 50 noOptions)) (plain echo) 0 Undefined
      [Str ''x'', Obj [(''signal'', AbortSignal 7)]] (abortSignal 7 initialState))) = [] \<and>
   pendingArgs (snd (debounced (fst (debounceExtend 50 noOptions)) (plain echo) 0 Undefined
      [Str ''x'', Obj [(''signal'', AbortSignal 7)]] (abortSignal 7 initialState)))
     = Some [Str ''x''] \<and>
   timerId (snd (debounced (fst (debounceExtend 50 noOptions)) (plain echo) 0 Undefined
      [Str ''x'', Obj [(''signal'', AbortSignal 7)]] (abortSignal 7 initialState))) = Some 50 \<and>
   calls (advance (plain echo) 50
      (snd (debounced (fst (debounceExtend 50 noOptions)) (plain echo) 0 Undefined
        [Str ''x'', Obj [(''signal'', AbortSignal 7)]] (abortSignal 7 initialState))))
     = [(50, Undefined, Some [Str ''x''])] \<and>
   debounced leadingOnly50 (plain echo) 0 Undefined
      [Str ''x'', Obj [(''signal'', AbortSignal 7)]] (abortSignal 7 initialState)
     = (ResolvedWith (Arr [Str ''x'']),
        initialState\<lparr>abortedSignals := [7], nextPromise := 1, firstCallTime := 0,
          pendingThis := Null, jobs := [(True, Value (Arr [Str ''x'']))],
          settlements := [(0, False, AbortError)],
          calls := [(0, Undefined, Some [Str ''x''])]\<rparr>)"
  by code_simp

text \<open>
  C9. With \<^verbatim>\<open>leading = true\<close> and \<^verbatim>\<open>trailing = false\<close> no timer is ever armed and \<open>invoke\<close> has
  cleared the staged arguments, so every call finds no cycle open and invokes the target
  at once: three calls 10 ms apart, with \<^verbatim>\<open>wait = 50\<close>, are three invocations.
\<close>

theorem C9_leading_only_invokes_every_call:
  "calls (run leadingOnly50 (plain echo)
            [(0, Call Undefined [Str ''a'']), (10, Call Undefined [Str ''b'']),
             (20, Call Undefined [Str ''c''])] initialState)
     = [(0, Undefined, Some [Str ''a'']), (10, Undefined, Some [Str ''b'']),
        (20, Undefined, Some [Str ''c''])]"
  by code_simp




end
